theory Spec2Isabelle
  imports Main
begin

section \<open>Python strings\<close>

text \<open>
  A Python \<open>str\<close> is a sequence of Unicode code points; it is modelled as the list of
  their numbers. \<open>str ''...''\<close> writes an ASCII literal.
\<close>

type_synonym pystr = "nat list"

definition str :: "string \<Rightarrow> pystr" where
  "str s = map of_char s"

text \<open>
  \<open>str.isspace\<close> for one character: the 29 code points CPython treats as whitespace
  (\<open>Py_UNICODE_ISSPACE\<close>).
\<close>

definition isspace :: "nat \<Rightarrow> bool" where
  "isspace c \<longleftrightarrow>
     (9 \<le> c \<and> c \<le> 13) \<or> (28 \<le> c \<and> c \<le> 32) \<or> c = 133 \<or> c = 160 \<or> c = 5760 \<or>
     (8192 \<le> c \<and> c \<le> 8202) \<or> c = 8232 \<or> c = 8233 \<or> c = 8239 \<or> c = 8287 \<or> c = 12288"

text \<open>\<open>description.strip()\<close>: whitespace removed at both ends.\<close>

definition strip :: "pystr \<Rightarrow> pystr" where
  "strip s = rev (dropWhile isspace (rev (dropWhile isspace s)))"

section \<open>\<open>int(task_id)\<close>\<close>

text \<open>
  The code points of the digit zero of every decimal script beyond ASCII (Unicode 14,
  category Nd); the ten digits of a script are consecutive.
\<close>

definition decimal_zeros :: "nat list" where
  "decimal_zeros =
    [1632, 1776, 1984, 2406, 2534, 2662, 2790, 2918, 3046, 3174, 3302, 3430, 3558, 3664,
     3792, 3872, 4160, 4240, 6112, 6160, 6470, 6608, 6784, 6800, 6992, 7088, 7232, 7248,
     42528, 43216, 43264, 43472, 43504, 43600, 44016, 65296, 66720, 68912, 69734, 69872,
     69942, 70096, 70384, 70736, 70864, 71248, 71360, 71472, 71904, 72016, 72784, 73040,
     73120, 92768, 92864, 93008, 120782, 120792, 120802, 120812, 120822, 123200, 123632,
     125264, 130032]"

definition to_decimal :: "nat \<Rightarrow> nat option" where
  "to_decimal c =
     (case find (\<lambda>z. z \<le> c \<and> c < z + 10) decimal_zeros of
        None \<Rightarrow> None
      | Some z \<Rightarrow> Some (c - z))"

text \<open>
  Before parsing, \<open>int\<close> turns every non-ASCII whitespace character into a space and every
  non-ASCII decimal digit into its ASCII digit; any other non-ASCII character makes the
  literal invalid.
\<close>

definition transform_char :: "nat \<Rightarrow> nat option" where
  "transform_char c =
     (if c < 127 then Some c
      else if isspace c then Some 32
      else map_option (\<lambda>d. 48 + d) (to_decimal c))"

definition c_isspace :: "nat \<Rightarrow> bool" where
  "c_isspace c \<longleftrightarrow> (9 \<le> c \<and> c \<le> 13) \<or> c = 32"

definition is_digit :: "nat \<Rightarrow> bool" where
  "is_digit c \<longleftrightarrow> 48 \<le> c \<and> c \<le> 57"

text \<open>Digits, with single underscores allowed between two digits.\<close>

fun int_literal :: "pystr \<Rightarrow> bool" where
  "int_literal [] = False"
| "int_literal [c] = is_digit c"
| "int_literal (c # d # r) =
     (is_digit c \<and> (if d = 95 then int_literal r else int_literal (d # r)))"

definition digits_value :: "pystr \<Rightarrow> nat" where
  "digits_value body = foldl (\<lambda>a c. 10 * a + (c - 48)) 0 (filter is_digit body)"

text \<open>
  \<open>int(task_id)\<close> for a string: \<open>None\<close> stands for \<open>ValueError\<close>. Whitespace around the
  literal is skipped and one sign is allowed. A literal of more than 4300 digits is
  refused (\<open>sys.get_int_max_str_digits()\<close>, by default 4300).
\<close>

definition py_int :: "pystr \<Rightarrow> int option" where
  "py_int s =
     (case those (map transform_char s) of
        None \<Rightarrow> None
      | Some a \<Rightarrow>
          let b = dropWhile c_isspace a;
              (neg, d) = (case b of
                            [] \<Rightarrow> (False, b)
                          | c # r \<Rightarrow> if c = 43 then (False, r)
                                     else if c = 45 then (True, r) else (False, b));
              body = rev (dropWhile c_isspace (rev d))
          in if int_literal body \<and> length (filter is_digit body) \<le> 4300
             then Some (if neg then - int (digits_value body) else int (digits_value body))
             else None)"

section \<open>Tasks\<close>

text \<open>
  A task is the dict \<open>{'id': .., 'description': .., 'completed': .., 'created_at': ..}\<close>
  built by \<open>add_task\<close>. The field \<open>id\<close> is named \<open>id_num\<close> here.
\<close>

record task =
  id_num :: int
  description :: pystr
  completed :: bool
  created_at :: pystr

section \<open>\<open>json.dump(self.tasks, file, indent=4)\<close>\<close>

text \<open>\<open>int.__repr__\<close>: decimal digits, a minus sign for negative numbers.\<close>

fun digits :: "nat \<Rightarrow> pystr" where
  "digits n = (if n < 10 then [48 + n] else digits (n div 10) @ [48 + n mod 10])"

declare digits.simps [simp del]

definition int_repr :: "int \<Rightarrow> pystr" where
  "int_repr i = (if i < 0 then 45 # digits (nat (- i)) else digits (nat i))"

text \<open>
  The conversion between \<open>int\<close> and \<open>str\<close> is limited to 4300 digits in both directions:
  \<open>int.__repr__\<close>, and with it \<open>json.dump\<close>, raises \<open>ValueError\<close> on a larger int, as
  \<open>int\<close> does on a longer literal. No id that the program comes to hold is larger:
  \<open>add_task\<close> counts the tasks and \<open>json.load\<close> reads no larger int. \<open>repr_ok\<close> says that
  an int is within the limit; \<open>int_repr\<close> and \<open>json_dump\<close> are the text written for such
  ints.
\<close>

definition repr_ok :: "int \<Rightarrow> bool" where
  "repr_ok i \<longleftrightarrow> length (digits (nat \<bar>i\<bar>)) \<le> 4300"

text \<open>
  \<open>encode_basestring_ascii\<close> (\<open>ensure_ascii\<close> is on by default): the printable ASCII
  characters stand for themselves, except the quote and the backslash; the others are
  escaped, those beyond the basic plane as a surrogate pair.
\<close>

definition hexdigit :: "nat \<Rightarrow> nat" where
  "hexdigit d = (if d < 10 then 48 + d else 87 + d)"

definition hex4 :: "nat \<Rightarrow> pystr" where
  "hex4 n = [hexdigit (n div 4096 mod 16), hexdigit (n div 256 mod 16),
             hexdigit (n div 16 mod 16), hexdigit (n mod 16)]"

definition escape_char :: "nat \<Rightarrow> pystr" where
  "escape_char c =
     (if c = 34 then [92, 34]
      else if c = 92 then [92, 92]
      else if c = 10 then [92, 110]
      else if c = 13 then [92, 114]
      else if c = 9 then [92, 116]
      else if c = 12 then [92, 102]
      else if c = 8 then [92, 98]
      else if 32 \<le> c \<and> c \<le> 126 then [c]
      else if c < 65536 then [92, 117] @ hex4 c
      else let v = c - 65536
           in [92, 117] @ hex4 (55296 + v div 1024 mod 1024) @
              [92, 117] @ hex4 (56320 + v mod 1024))"

definition encode_str :: "pystr \<Rightarrow> pystr" where
  "encode_str s = 34 # concat (map escape_char s) @ [34]"

text \<open>
  One task with \<open>indent=4\<close> at nesting level 1: each key on a line of its own, indented by
  8 spaces, the closing brace by 4; \<open>": "\<close> after a key, \<open>","\<close> after an item.
\<close>

definition newline_indent :: "nat \<Rightarrow> pystr" where
  "newline_indent level = 10 # replicate (4 * level) 32"

definition dump_task :: "task \<Rightarrow> pystr" where
  "dump_task t =
     str ''{'' @ newline_indent 2 @
     encode_str (str ''id'') @ str '': '' @ int_repr (id_num t) @ str '','' @ newline_indent 2 @
     encode_str (str ''description'') @ str '': '' @ encode_str (description t) @ str '','' @
       newline_indent 2 @
     encode_str (str ''completed'') @ str '': '' @
       (if completed t then str ''true'' else str ''false'') @ str '','' @ newline_indent 2 @
     encode_str (str ''created_at'') @ str '': '' @ encode_str (created_at t) @
     newline_indent 1 @ str ''}''"

fun dump_items :: "task list \<Rightarrow> pystr" where
  "dump_items [] = []"
| "dump_items [t] = dump_task t"
| "dump_items (t # ts) = dump_task t @ str '','' @ newline_indent 1 @ dump_items ts"

definition json_dump :: "task list \<Rightarrow> pystr" where
  "json_dump ts =
     (if ts = [] then str ''[]''
      else str ''['' @ newline_indent 1 @ dump_items ts @ newline_indent 0 @ str '']'')"

section \<open>\<open>json.load(file)\<close>\<close>

text \<open>
  The values \<open>json.load\<close> returns. A float is kept as the text of its literal.
\<close>

datatype jvalue =
    JNull
  | JBool bool
  | JInt int
  | JFloat pystr
  | JString pystr
  | JArray "jvalue list"
  | JObject "(pystr \<times> jvalue) list"

text \<open>The errors of opening, reading and writing the file.\<close>

datatype io_error = FileNotFoundError | PermissionError | IsADirectoryError
  | UnicodeDecodeError | OtherOSError

text \<open>
  The exceptions met in the body of \<open>load_tasks\<close>; all are subclasses of \<open>Exception\<close>.
  \<open>StopIteration\<close> is how the scanner says that no value starts where it looks;
  \<open>json.loads\<close> turns it into \<open>JSONDecodeError\<close>.
\<close>

datatype exn = JSONDecodeError | IOError io_error | RecursionError | ValueError
  | StopIteration

definition json_ws :: "nat \<Rightarrow> bool" where
  "json_ws c \<longleftrightarrow> c = 32 \<or> c = 9 \<or> c = 10 \<or> c = 13"

definition skip_ws :: "pystr \<Rightarrow> pystr" where
  "skip_ws s = dropWhile json_ws s"

definition starts_with :: "pystr \<Rightarrow> pystr \<Rightarrow> bool" where
  "starts_with p s \<longleftrightarrow> take (length p) s = p"

definition hexval :: "nat \<Rightarrow> nat option" where
  "hexval c =
     (if 48 \<le> c \<and> c \<le> 57 then Some (c - 48)
      else if 97 \<le> c \<and> c \<le> 102 then Some (c - 87)
      else if 65 \<le> c \<and> c \<le> 70 then Some (c - 55)
      else None)"

definition hex4_value :: "nat \<Rightarrow> nat \<Rightarrow> nat \<Rightarrow> nat \<Rightarrow> nat option" where
  "hex4_value h1 h2 h3 h4 =
     (case (hexval h1, hexval h2, hexval h3, hexval h4) of
        (Some a, Some b, Some c, Some d) \<Rightarrow> Some (((a * 16 + b) * 16 + c) * 16 + d)
      | _ \<Rightarrow> None)"

definition is_high :: "nat \<Rightarrow> bool" where
  "is_high u \<longleftrightarrow> 55296 \<le> u \<and> u \<le> 56319"

definition is_low :: "nat \<Rightarrow> bool" where
  "is_low u \<longleftrightarrow> 56320 \<le> u \<and> u \<le> 57343"

definition join_surrogates :: "nat \<Rightarrow> nat \<Rightarrow> nat" where
  "join_surrogates u u2 = 65536 + ((u - 55296) * 1024 + (u2 - 56320))"

text \<open>
  One escape, read after its backslash: the character it stands for and the text after
  it; \<open>None\<close> is an invalid escape.
\<close>

definition scan_escape :: "pystr \<Rightarrow> (nat \<times> pystr) option" where
  "scan_escape s =
     (case s of
        [] \<Rightarrow> None
      | e # r \<Rightarrow>
          if e = 117 then
            (case r of
               h1 # h2 # h3 # h4 # r1 \<Rightarrow>
                 if r1 = [] then None
                 else
                   (case hex4_value h1 h2 h3 h4 of
                      None \<Rightarrow> None
                    | Some u \<Rightarrow>
                        (case r1 of
                           b # v # k1 # k2 # k3 # k4 # r2 \<Rightarrow>
                             if is_high u \<and> r2 \<noteq> [] \<and> b = 92 \<and> v = 117 then
                               (case hex4_value k1 k2 k3 k4 of
                                  None \<Rightarrow> None
                                | Some u2 \<Rightarrow>
                                    if is_low u2 then Some (join_surrogates u u2, r2)
                                    else Some (u, r1))
                             else Some (u, r1)
                         | _ \<Rightarrow> Some (u, r1)))
             | _ \<Rightarrow> None)
          else if e = 34 \<or> e = 92 \<or> e = 47 then Some (e, r)
          else if e = 98 then Some (8, r)
          else if e = 102 then Some (12, r)
          else if e = 110 then Some (10, r)
          else if e = 114 then Some (13, r)
          else if e = 116 then Some (9, r)
          else None)"

function scanstring :: "pystr \<Rightarrow> pystr \<Rightarrow> exn + pystr \<times> pystr" where
  "scanstring [] acc = Inl JSONDecodeError"
| "scanstring (c # cs) acc =
     (if c = 34 then Inr (acc, cs)
      else if c = 92 then
        (case scan_escape cs of
           None \<Rightarrow> Inl JSONDecodeError
         | Some (c', r) \<Rightarrow> scanstring r (acc @ [c']))
      else if c \<le> 31 then Inl JSONDecodeError
      else scanstring cs (acc @ [c]))"
  by pat_completeness auto
termination
  by (relation "measure (\<lambda>(s, acc). length s)")
    (auto simp: scan_escape_def split: list.splits if_splits option.splits)

declare scanstring.simps [simp del]

definition scan_fraction :: "pystr \<Rightarrow> (pystr \<times> pystr) option" where
  "scan_fraction s =
     (case s of
        p # d # r \<Rightarrow>
          if p = 46 \<and> is_digit d then Some (p # d # takeWhile is_digit r, dropWhile is_digit r)
          else None
      | _ \<Rightarrow> None)"

definition scan_exponent :: "pystr \<Rightarrow> (pystr \<times> pystr) option" where
  "scan_exponent s =
     (case s of
        [] \<Rightarrow> None
      | e # r \<Rightarrow>
          if e = 101 \<or> e = 69 then
            let (sign, r1) = (case r of
                                [] \<Rightarrow> ([], r)
                              | c # r' \<Rightarrow> if c = 45 \<or> c = 43 then ([c], r') else ([], r))
            in if takeWhile is_digit r1 = [] then None
               else Some (e # sign @ takeWhile is_digit r1, dropWhile is_digit r1)
          else None)"

text \<open>
  A number: an optional minus, \<open>0\<close> or a run of digits not starting with \<open>0\<close>, then an
  optional fraction and an optional exponent, either of which makes it a float. Where no
  number starts the scanner raises \<open>StopIteration\<close>; an integer of more than 4300 digits
  makes \<open>int\<close> raise \<open>ValueError\<close>.
\<close>

definition scan_number :: "pystr \<Rightarrow> exn + jvalue \<times> pystr" where
  "scan_number s =
     (let (sign, s1) = (case s of
                          [] \<Rightarrow> ([], s)
                        | c # r \<Rightarrow> if c = 45 then ([c], r) else ([], s))
      in case s1 of
           [] \<Rightarrow> Inl StopIteration
         | c # r \<Rightarrow>
             if \<not> is_digit c then Inl StopIteration
             else
               let (ds, r1) = (if c = 48 then ([c], r)
                               else (c # takeWhile is_digit r, dropWhile is_digit r));
                   (frac, r2) = (case scan_fraction r1 of
                                   None \<Rightarrow> ([], r1) | Some (f, r') \<Rightarrow> (f, r'));
                   (ex, r3) = (case scan_exponent r2 of
                                 None \<Rightarrow> ([], r2) | Some (x, r') \<Rightarrow> (x, r'))
               in if frac = [] \<and> ex = []
                  then if 4300 < length ds then Inl ValueError
                       else Inr (JInt (if sign = [] then int (digits_value ds)
                                        else - int (digits_value ds)), r3)
                  else Inr (JFloat (sign @ ds @ frac @ ex), r3))"

text \<open>Storing a key in a dict: a key already present keeps its place and gets the new value.\<close>

fun dict_set :: "(pystr \<times> jvalue) list \<Rightarrow> pystr \<Rightarrow> jvalue \<Rightarrow> (pystr \<times> jvalue) list" where
  "dict_set [] k v = [(k, v)]"
| "dict_set ((k', v') # kvs) k v =
     (if k' = k then (k', v) # kvs else (k', v') # dict_set kvs k v)"

text \<open>
  The interpreter allows a bounded number of nested calls. The argument \<open>d\<close> of the
  scanner is the number of calls still allowed where it runs. Entering an array or an
  object takes one (\<open>Py_EnterRecursiveCall\<close>), and so does the call that makes the value
  of \<open>NaN\<close>, \<open>Infinity\<close> or \<open>-Infinity\<close>. An error that the scanner reports itself
  (\<open>raise_errmsg\<close>: every error but \<open>StopIteration\<close>) is a \<open>JSONDecodeError\<close> made by
  calling its class, which takes three nested calls in CPython 3.11; when fewer are left,
  what is raised is \<open>RecursionError\<close>.
\<close>

definition raise_errmsg :: "nat \<Rightarrow> exn" where
  "raise_errmsg d = (if d < 3 then RecursionError else JSONDecodeError)"

text \<open>
  The scanner: \<open>scan_once\<close> reads one value, \<open>parse_array\<close> the items of an array after
  its bracket and \<open>parse_object\<close> the members of an object after its brace; every error
  of \<open>scanstring\<close> is reported by \<open>raise_errmsg\<close>. The tests \<open>length r' < length s\<close> and
  \<open>length r3 < length s\<close> before the next item and the next member are there for the
  termination proof alone: they always hold (lemmas \<open>parse_array_unfold\<close> and
  \<open>parse_object_unfold\<close> below).
\<close>

function scan_once :: "nat \<Rightarrow> pystr \<Rightarrow> exn + jvalue \<times> pystr"
  and parse_array :: "nat \<Rightarrow> pystr \<Rightarrow> jvalue list \<Rightarrow> exn + jvalue \<times> pystr"
  and parse_object :: "nat \<Rightarrow> pystr \<Rightarrow> (pystr \<times> jvalue) list \<Rightarrow> exn + jvalue \<times> pystr"
where
  "scan_once d s =
     (case s of
        [] \<Rightarrow> Inl StopIteration
      | c # cs \<Rightarrow>
          if c = 34 then
            (case scanstring cs [] of
               Inl e \<Rightarrow> Inl (raise_errmsg d)
             | Inr (x, r) \<Rightarrow> Inr (JString x, r))
          else if c = 123 then
            (if d = 0 then Inl RecursionError
             else
               (case skip_ws cs of
                  [] \<Rightarrow> Inl (raise_errmsg (d - 1))
                | q # r \<Rightarrow>
                    if q = 125 then Inr (JObject [], r) else parse_object (d - 1) (q # r) []))
          else if c = 91 then
            (if d = 0 then Inl RecursionError
             else
               (case skip_ws cs of
                  [] \<Rightarrow> Inl StopIteration
                | q # r \<Rightarrow>
                    if q = 93 then Inr (JArray [], r) else parse_array (d - 1) (q # r) []))
          else if starts_with (str ''null'') s then Inr (JNull, drop 4 s)
          else if starts_with (str ''true'') s then Inr (JBool True, drop 4 s)
          else if starts_with (str ''false'') s then Inr (JBool False, drop 5 s)
          else if starts_with (str ''NaN'') s then
            (if d = 0 then Inl RecursionError else Inr (JFloat (str ''NaN''), drop 3 s))
          else if starts_with (str ''Infinity'') s then
            (if d = 0 then Inl RecursionError else Inr (JFloat (str ''Infinity''), drop 8 s))
          else if starts_with (str ''-Infinity'') s then
            (if d = 0 then Inl RecursionError else Inr (JFloat (str ''-Infinity''), drop 9 s))
          else scan_number s)"
| "parse_array d s acc =
     (case scan_once d s of
        Inl e \<Rightarrow> Inl e
      | Inr (v, r) \<Rightarrow>
          (case skip_ws r of
             [] \<Rightarrow> Inl (raise_errmsg d)
           | q # r' \<Rightarrow>
               if q = 93 then Inr (JArray (acc @ [v]), r')
               else if q = 44 \<and> length r' < length s
                 then parse_array d (skip_ws r') (acc @ [v])
               else Inl (raise_errmsg d)))"
| "parse_object d s acc =
     (case s of
        [] \<Rightarrow> Inl (raise_errmsg d)
      | q # ks \<Rightarrow>
          if q \<noteq> 34 then Inl (raise_errmsg d)
          else
            (case scanstring ks [] of
               Inl e \<Rightarrow> Inl (raise_errmsg d)
             | Inr (key, r) \<Rightarrow>
                 (case skip_ws r of
                    [] \<Rightarrow> Inl (raise_errmsg d)
                  | colon # r1 \<Rightarrow>
                      if colon \<noteq> 58 then Inl (raise_errmsg d)
                      else
                        (case scan_once d (skip_ws r1) of
                           Inl e \<Rightarrow> Inl e
                         | Inr (v, r2) \<Rightarrow>
                             (case skip_ws r2 of
                                [] \<Rightarrow> Inl (raise_errmsg d)
                              | c # r3 \<Rightarrow>
                                  if c = 125 then Inr (JObject (dict_set acc key v), r3)
                                  else if c = 44 \<and> length r3 < length s
                                    then parse_object d (skip_ws r3) (dict_set acc key v)
                                  else Inl (raise_errmsg d))))))"
  by pat_completeness auto
termination
proof -
  have esc: "length r < length s" if "scan_escape s = Some (c, r)" for s c r
    using that by (auto simp: scan_escape_def split: list.splits if_splits option.splits)
  have str: "length r < length s" if "scanstring s acc = Inr (x, r)" for s acc x r
    using that
  proof (induction s acc rule: scanstring.induct)
    case (1 acc)
    then show ?case by (simp add: scanstring.simps)
  next
    case (2 c cs acc)
    show ?case
    proof (cases "c = 34")
      case True
      with 2(3) show ?thesis by (simp add: scanstring.simps)
    next
      case n34: False
      show ?thesis
      proof (cases "c = 92")
        case True
        with n34 2(3) obtain c' r' where e: "scan_escape cs = Some (c', r')"
          and "scanstring r' (acc @ [c']) = Inr (x, r)"
          by (auto simp: scanstring.simps split: option.splits)
        with 2(1) [OF n34 True e [THEN sym, THEN sym]] esc [OF e]
        show ?thesis by simp
      next
        case False
        with n34 2(3) have "\<not> c \<le> 31" and "scanstring cs (acc @ [c]) = Inr (x, r)"
          by (auto simp: scanstring.simps split: if_splits)
        with 2(2) [OF n34 False] show ?thesis by simp
      qed
    qed
  qed
  have ws: "length (skip_ws s) \<le> length s" for s
    by (simp add: skip_ws_def length_dropWhile_le)
  have ws_Cons: "length r < length s" if "skip_ws s = q # r" for s q r
    using ws [of s] that by simp
  have ws_less: "2 * length (skip_ws s) < n" if "2 * length s < n" for s n
    using ws [of s] that by simp
  have ws_less': "length (skip_ws s) < n" if "length s < n" for s n
    using ws [of s] that by simp
  show ?thesis
    by (relation "measure (\<lambda>x. case x of
          Inl (d, s) \<Rightarrow> 2 * length s
        | Inr (Inl (d, s, acc)) \<Rightarrow> 2 * length s + 1
        | Inr (Inr (d, s, acc)) \<Rightarrow> 2 * length s + 1)")
      (auto dest!: ws_Cons str intro!: ws_less ws_less')
qed

declare scan_once.simps [simp del] parse_array.simps [simp del] parse_object.simps [simp del]

text \<open>
  \<open>json.loads\<close> with \<open>depth\<close> calls still allowed where the scanner starts: a leading
  byte order mark is refused; whitespace may surround the one value; anything after it is
  an error. \<open>StopIteration\<close> becomes \<open>JSONDecodeError\<close> in \<open>raw_decode\<close> and text after the
  value is refused in \<open>decode\<close>, one call above; there, making the exception takes two
  nested calls.
\<close>

definition json_loads :: "nat \<Rightarrow> pystr \<Rightarrow> exn + jvalue" where
  "json_loads depth s =
     (if starts_with [65279] s then Inl JSONDecodeError
      else
        (case scan_once depth (skip_ws s) of
           Inl e \<Rightarrow>
             if e = StopIteration
             then Inl (if depth < 2 then RecursionError else JSONDecodeError)
             else Inl e
         | Inr (v, r) \<Rightarrow>
             if skip_ws r = [] then Inr v
             else Inl (if depth = 0 then RecursionError else JSONDecodeError)))"

text \<open>
  Two texts that meet the limits of the interpreter: \<open>n\<close> opening brackets, and an
  integer of \<open>n\<close> digits.
\<close>

definition nested :: "nat \<Rightarrow> pystr" where
  "nested n = replicate n 91"

definition ones :: "nat \<Rightarrow> pystr" where
  "ones n = replicate n 49"

text \<open>The list of dicts that \<open>self.tasks\<close> is, as a value of \<open>json.load\<close>.\<close>

definition py_task :: "task \<Rightarrow> jvalue" where
  "py_task t =
     JObject [(str ''id'', JInt (id_num t)), (str ''description'', JString (description t)),
              (str ''completed'', JBool (completed t)),
              (str ''created_at'', JString (created_at t))]"

definition py_tasks :: "task list \<Rightarrow> jvalue" where
  "py_tasks ts = JArray (map py_task ts)"

text \<open>
  Text in which no high surrogate is directly followed by a low surrogate, and every
  code point is one a \<open>str\<close> can hold. All well-formed Unicode text is such.
\<close>

fun no_split_pair :: "pystr \<Rightarrow> bool" where
  "no_split_pair (a # b # r) = (\<not> (is_high a \<and> is_low b) \<and> no_split_pair (b # r))"
| "no_split_pair [a] = True"
| "no_split_pair [] = True"

definition text_ok :: "pystr \<Rightarrow> bool" where
  "text_ok s \<longleftrightarrow> (\<forall>c\<in>set s. c < 1114112) \<and> no_split_pair s"

section \<open>The store and its environment\<close>

text \<open>
  The backing file as an operation finds it: absent (\<open>os.path.exists\<close> is false), present
  but failing to open, read or decode, or present with a text. A write either succeeds or
  fails with an error, leaving the file in a state the environment chooses.
\<close>

datatype file_state = Absent | Unreadable io_error | Content pystr

datatype write_outcome = WriteOk | WriteFails io_error file_state

text \<open>
  \<open>tasks\<close> is \<open>self.tasks\<close>, \<open>stored\<close> the file named \<open>self.filename\<close>, \<open>on_write\<close> what
  the next write meets, and \<open>save_calls\<close> counts the calls of \<open>save_tasks\<close>.
\<close>

record state =
  tasks :: "task list"
  stored :: file_state
  on_write :: write_outcome
  save_calls :: nat

text \<open>What the program prints, one constructor for each \<open>print\<close> or \<open>input\<close> prompt.\<close>

datatype mark = Check | Circle

datatype status_text = DONE | PENDING

datatype msg =
    WarnCorrupted
  | ErrLoading exn
  | ErrSaving io_error
  | ErrEmptyDescription
  | TaskAdded int
  | NoTasksFound
  | NoPendingFound
  | Blank_Rule
  | Title
  | TaskHead mark int status_text
  | TaskText pystr
  | TaskCreated pystr
  | Rule
  | Summary int int int
  | ErrIdNotNumber
  | ErrNotExist int
  | AskDelete pystr
  | DeletionCancelled
  | TaskDeleted int
  | AlreadyCompleted int
  | MarkedCompleted int
  | AlreadyIncomplete int
  | MarkedIncomplete int
  | NoCompletedToClear
  | AskClear nat
  | Cleared nat
  | OperationCancelled

text \<open>
  \<open>save_tasks\<close>: the file is opened for writing and the tasks are dumped; any exception
  is caught, reported and turned into \<open>False\<close>.
\<close>

definition save_tasks :: "state \<Rightarrow> bool \<times> msg list \<times> state" where
  "save_tasks s =
     (case on_write s of
        WriteOk \<Rightarrow>
          (True, [], s\<lparr>stored := Content (json_dump (tasks s)), save_calls := save_calls s + 1\<rparr>)
      | WriteFails e f \<Rightarrow>
          (False, [ErrSaving e], s\<lparr>stored := f, save_calls := save_calls s + 1\<rparr>))"

text \<open>
  \<open>load_tasks\<close>: the body of the \<open>try\<close> returns the value read, or the empty list when
  the file does not exist, or raises. The first handler takes \<open>JSONDecodeError\<close>, the
  second every \<open>Exception\<close>; an exception that neither takes would reach the caller.
  \<open>depth\<close> is the number of nested calls the interpreter still allows where the scanner
  of \<open>json.load\<close> starts.
\<close>

definition is_Exception :: "exn \<Rightarrow> bool" where
  "is_Exception e =
     (case e of
        JSONDecodeError \<Rightarrow> True | IOError x \<Rightarrow> True | RecursionError \<Rightarrow> True
      | ValueError \<Rightarrow> True | StopIteration \<Rightarrow> True)"

definition load_tasks :: "nat \<Rightarrow> state \<Rightarrow> exn + jvalue \<times> msg list" where
  "load_tasks depth s =
     (case (case stored s of
              Absent \<Rightarrow> Inr (JArray [])
            | Unreadable e \<Rightarrow> Inl (IOError e)
            | Content text \<Rightarrow> json_loads depth text) of
        Inr v \<Rightarrow> Inr (v, [])
      | Inl e \<Rightarrow>
          if e = JSONDecodeError then Inr (JArray [], [WarnCorrupted])
          else if is_Exception e then Inr (JArray [], [ErrLoading e])
          else Inl e)"

text \<open>
  \<open>add_task\<close>; \<open>now\<close> is \<open>datetime.now().strftime("%Y-%m-%d %H:%M:%S")\<close>.
\<close>

definition add_task :: "pystr \<Rightarrow> pystr \<Rightarrow> state \<Rightarrow> bool \<times> msg list \<times> state" where
  "add_task descr now s =
     (if descr = [] \<or> strip descr = [] then (False, [ErrEmptyDescription], s)
      else
        let task = \<lparr>id_num = int (length (tasks s)) + 1, description = strip descr,
                    completed = False, created_at = now\<rparr>;
            s1 = s\<lparr>tasks := tasks s @ [task]\<rparr>;
            (ok, out, s2) = save_tasks s1
        in if ok then (True, out @ [TaskAdded (id_num task)], s2) else (False, out, s2))"

text \<open>
  \<open>view_tasks\<close> prints and returns nothing; its value here is what it prints. The three
  lines printed for one task are \<open>show_task\<close>.
\<close>

definition show_task :: "task \<Rightarrow> msg list" where
  "show_task t =
     [TaskHead (if completed t then Check else Circle) (id_num t)
        (if completed t then DONE else PENDING),
      TaskText (description t), TaskCreated (created_at t)]"

definition view_tasks :: "bool \<Rightarrow> state \<Rightarrow> msg list" where
  "view_tasks show_all s =
     (if tasks s = [] then [NoTasksFound]
      else
        let tasks_to_show =
              (if show_all then tasks s else filter (\<lambda>t. \<not> completed t) (tasks s))
        in if tasks_to_show = [] then [NoPendingFound]
           else
             let total = int (length (tasks s));
                 completed = sum_list (map (\<lambda>t. 1) (filter completed (tasks s)));
                 pending = total - completed
             in [Blank_Rule, Title, Rule] @ concat (map show_task tasks_to_show) @
                [Blank_Rule, Summary total completed pending, Rule])"

text \<open>The tasks a printout shows, read back from its lines.\<close>

fun shown_tasks :: "msg list \<Rightarrow> task list" where
  "shown_tasks (TaskHead m i st # TaskText d # TaskCreated c # rest) =
     \<lparr>id_num = i, description = d, completed = (st = DONE), created_at = c\<rparr> #
     shown_tasks rest"
| "shown_tasks (x # rest) = shown_tasks rest"
| "shown_tasks [] = []"

text \<open>The loop that looks for the first task with the given id.\<close>

fun find_task_index :: "int \<Rightarrow> task list \<Rightarrow> nat option" where
  "find_task_index n [] = None"
| "find_task_index n (t # ts) =
     (if id_num t = n then Some 0 else map_option Suc (find_task_index n ts))"

text \<open>
  \<open>delete_task\<close>; \<open>confirm\<close> is the answer to the prompt, in lower case
  (\<open>input(...).lower()\<close>).
\<close>

definition delete_task :: "pystr \<Rightarrow> pystr \<Rightarrow> state \<Rightarrow> bool \<times> msg list \<times> state" where
  "delete_task task_id confirm s =
     (case py_int task_id of
        None \<Rightarrow> (False, [ErrIdNotNumber], s)
      | Some n \<Rightarrow>
          (case find_task_index n (tasks s) of
             None \<Rightarrow> (False, [ErrNotExist n], s)
           | Some task_index \<Rightarrow>
               let task_desc = description (tasks s ! task_index)
               in if confirm = str ''yes'' then
                    let s1 = s\<lparr>tasks := take task_index (tasks s) @
                                         drop (Suc task_index) (tasks s)\<rparr>;
                        (ok, out, s2) = save_tasks s1
                    in if ok then (True, AskDelete task_desc # out @ [TaskDeleted n], s2)
                       else (False, AskDelete task_desc # out, s2)
                  else (False, [AskDelete task_desc, DeletionCancelled], s)))"

text \<open>
  \<open>mark_complete\<close> and \<open>mark_incomplete\<close>: the task found is the dict inside the list, so
  the assignment to its \<open>completed\<close> key updates the list in place.
\<close>

definition mark_complete :: "pystr \<Rightarrow> state \<Rightarrow> bool \<times> msg list \<times> state" where
  "mark_complete task_id s =
     (case py_int task_id of
        None \<Rightarrow> (False, [ErrIdNotNumber], s)
      | Some n \<Rightarrow>
          (case find_task_index n (tasks s) of
             None \<Rightarrow> (False, [ErrNotExist n], s)
           | Some i \<Rightarrow>
               if completed (tasks s ! i) then (False, [AlreadyCompleted n], s)
               else
                 let s1 = s\<lparr>tasks := (tasks s)[i := (tasks s ! i)\<lparr>completed := True\<rparr>]\<rparr>;
                     (ok, out, s2) = save_tasks s1
                 in if ok then (True, out @ [MarkedCompleted n], s2) else (False, out, s2)))"

definition mark_incomplete :: "pystr \<Rightarrow> state \<Rightarrow> bool \<times> msg list \<times> state" where
  "mark_incomplete task_id s =
     (case py_int task_id of
        None \<Rightarrow> (False, [ErrIdNotNumber], s)
      | Some n \<Rightarrow>
          (case find_task_index n (tasks s) of
             None \<Rightarrow> (False, [ErrNotExist n], s)
           | Some i \<Rightarrow>
               if \<not> completed (tasks s ! i) then (False, [AlreadyIncomplete n], s)
               else
                 let s1 = s\<lparr>tasks := (tasks s)[i := (tasks s ! i)\<lparr>completed := False\<rparr>]\<rparr>;
                     (ok, out, s2) = save_tasks s1
                 in if ok then (True, out @ [MarkedIncomplete n], s2) else (False, out, s2)))"

definition clear_completed :: "pystr \<Rightarrow> state \<Rightarrow> bool \<times> msg list \<times> state" where
  "clear_completed confirm s =
     (let completed_tasks = filter completed (tasks s)
      in if completed_tasks = [] then (False, [NoCompletedToClear], s)
         else if confirm = str ''yes'' then
           let s1 = s\<lparr>tasks := filter (\<lambda>t. \<not> completed t) (tasks s)\<rparr>;
               (ok, out, s2) = save_tasks s1
           in if ok then (True, AskClear (length completed_tasks) # out @
                                  [Cleared (length completed_tasks)], s2)
              else (False, AskClear (length completed_tasks) # out, s2)
         else (False, [AskClear (length completed_tasks), OperationCancelled], s))"

section \<open>Strings\<close>

lemma strip_blank: "list_all isspace d \<Longrightarrow> strip d = []"
  by (auto simp: strip_def list_all_iff dest: set_dropWhileD)

lemma isspace_32: "isspace 32"
  by (simp add: isspace_def)

section \<open>Adding a task\<close>

text \<open>
  C8. A description that is empty or consists only of whitespace is refused with the
  empty-description error: \<open>add_task\<close> returns \<open>False\<close>, and the whole state (the task
  sequence, the file and the count of saves) stays as it was.
\<close>

theorem add_task_blank_rejected:
  assumes "list_all isspace descr"
  shows "add_task descr now s = (False, [ErrEmptyDescription], s)"
  using strip_blank [OF assms] by (simp add: add_task_def)

theorem add_task_blank_rejected_witness:
  "list_all isspace [32, 9, 32] \<and>
   add_task [32, 9, 32] (str ''2024-01-01 10:00:00'')
     \<lparr>tasks = [], stored = Absent, on_write = WriteOk, save_calls = 0\<rparr> =
   (False, [ErrEmptyDescription],
     \<lparr>tasks = [], stored = Absent, on_write = WriteOk, save_calls = 0\<rparr>)"
proof -
  have h: "list_all isspace [32, 9, 32]"
    by (simp add: isspace_def)
  show ?thesis
    using h add_task_blank_rejected [OF h] by simp
qed

lemma strip_nonempty: "strip d \<noteq> [] \<Longrightarrow> d \<noteq> []"
  by (auto simp: strip_def)

lemma str_nonempty: "str (c # cs) \<noteq> []"
  by (simp add: str_def)

lemma strip_examples:
  "strip (str ''Buy milk'') = str ''Buy milk''" "strip (str ''Walk dog'') = str ''Walk dog''"
  "strip (str ''Feed cat'') = str ''Feed cat''"
  by (simp_all add: strip_def str_def isspace_def)

lemma py_int_examples:
  "py_int (str ''1'') = Some 1" "py_int (str ''2'') = Some 2" "py_int (str ''7'') = Some 7"
  "py_int (str ''-5'') = Some (- 5)" "py_int (str ''abc'') = None"
  by (simp_all add: py_int_def str_def transform_char_def c_isspace_def is_digit_def
      digits_value_def)

section \<open>Saving\<close>

lemma save_tasks_tasks: "tasks (snd (snd (save_tasks s))) = tasks s"
  by (simp add: save_tasks_def split: write_outcome.split)

lemma save_tasks_ok: "fst (save_tasks s) \<longleftrightarrow> on_write s = WriteOk"
  by (simp add: save_tasks_def split: write_outcome.split)

lemma save_tasks_out_ok: "on_write s = WriteOk \<Longrightarrow> fst (snd (save_tasks s)) = []"
  by (simp add: save_tasks_def)

section \<open>Looking a task up\<close>

lemma find_task_index_None:
  "find_task_index n ts = None \<longleftrightarrow> (\<forall>t\<in>set ts. id_num t \<noteq> n)"
  by (induction ts) auto

lemma find_task_index_first:
  "find_task_index n ts = Some i \<longleftrightarrow>
     i < length ts \<and> id_num (ts ! i) = n \<and> (\<forall>j<i. id_num (ts ! j) \<noteq> n)"
proof (induction ts arbitrary: i)
  case Nil
  then show ?case by simp
next
  case (Cons t ts)
  show ?case
  proof (cases "id_num t = n")
    case True
    then show ?thesis by (cases i) auto
  next
    case False
    show ?thesis
    proof (cases i)
      case 0
      with False show ?thesis by auto
    next
      case (Suc k)
      have "(\<forall>j<Suc k. id_num ((t # ts) ! j) \<noteq> n) \<longleftrightarrow> (\<forall>j<k. id_num (ts ! j) \<noteq> n)"
        using False by (auto simp: nth_Cons split: nat.splits)
      with Suc False Cons.IH [of k] show ?thesis by auto
    qed
  qed
qed

lemma find_task_index_Some:
  "(\<exists>i. find_task_index n ts = Some i) \<longleftrightarrow> (\<exists>t\<in>set ts. id_num t = n)"
  using find_task_index_None [of n ts] by (cases "find_task_index n ts") auto

section \<open>Adding a task\<close>

lemma add_task_result:
  assumes "strip descr \<noteq> []"
  shows "add_task descr now s =
    (let s1 = s\<lparr>tasks := tasks s @ [\<lparr>id_num = int (length (tasks s)) + 1,
                  description = strip descr, completed = False, created_at = now\<rparr>]\<rparr>
     in (fst (save_tasks s1),
         (if fst (save_tasks s1)
          then fst (snd (save_tasks s1)) @ [TaskAdded (int (length (tasks s)) + 1)]
          else fst (snd (save_tasks s1))),
         snd (snd (save_tasks s1))))"
  using assms strip_nonempty [OF assms]
  by (simp add: add_task_def Let_def split: prod.split)

text \<open>
  C1, as amended. For a description that is not empty after stripping, \<open>add_task\<close> appends
  one task, with id the former count plus one, the stripped description, \<open>completed\<close>
  false and the given timestamp, so the count grows by exactly one. It returns \<open>True\<close>, and
  announces the new id, exactly when the save succeeds.
\<close>

theorem add_task_appends:
  assumes "strip descr \<noteq> []" and "add_task descr now s = (ok, out, s')"
  shows "tasks s' = tasks s @ [\<lparr>id_num = int (length (tasks s)) + 1,
                  description = strip descr, completed = False, created_at = now\<rparr>] \<and>
         length (tasks s') = length (tasks s) + 1 \<and>
         (ok \<longleftrightarrow> on_write s = WriteOk) \<and>
         (ok \<longrightarrow> out = [TaskAdded (int (length (tasks s)) + 1)])"
  using assms(2) unfolding add_task_result [OF assms(1)]
  by (auto simp: Let_def save_tasks_tasks save_tasks_ok save_tasks_out_ok)

theorem add_task_appends_witness:
  "strip (str ''Buy milk'') \<noteq> [] \<and>
   tasks (snd (snd (add_task (str ''Buy milk'') (str ''2024-01-01 10:00:00'')
     \<lparr>tasks = [], stored = Absent, on_write = WriteOk, save_calls = 0\<rparr>))) =
     [\<lparr>id_num = 1, description = str ''Buy milk'', completed = False,
       created_at = str ''2024-01-01 10:00:00''\<rparr>] \<and>
   fst (add_task (str ''Buy milk'') (str ''2024-01-01 10:00:00'')
     \<lparr>tasks = [], stored = Absent, on_write = WriteOk, save_calls = 0\<rparr>) \<and>
   fst (snd (add_task (str ''Buy milk'') (str ''2024-01-01 10:00:00'')
     \<lparr>tasks = [], stored = Absent, on_write = WriteOk, save_calls = 0\<rparr>)) = [TaskAdded 1]"
proof -
  let ?s = "\<lparr>tasks = [], stored = Absent, on_write = WriteOk, save_calls = 0\<rparr>"
  let ?r = "add_task (str ''Buy milk'') (str ''2024-01-01 10:00:00'') ?s"
  have h: "strip (str ''Buy milk'') \<noteq> []"
    by (simp add: strip_examples str_nonempty)
  have e: "?r = (fst ?r, fst (snd ?r), snd (snd ?r))"
    by simp
  show ?thesis
    using h add_task_appends [OF h e] by (simp add: strip_examples)
qed

text \<open>
  The claim C1 as stated fails where the save fails: the description is valid, and
  \<open>add_task\<close> returns \<open>False\<close>.
\<close>

theorem add_task_fails_when_save_fails:
  "strip (str ''Buy milk'') \<noteq> [] \<and>
   fst (add_task (str ''Buy milk'') (str ''2024-01-01 10:00:00'')
     \<lparr>tasks = [], stored = Absent, on_write = WriteFails PermissionError Absent,
      save_calls = 0\<rparr>) = False"
  by (simp add: add_task_def save_tasks_def strip_examples str_nonempty Let_def)

text \<open>
  C2, as amended. When no live task has an id above the count, the id of the task that
  \<open>add_task\<close> appends, the count plus one, differs from the id of every other live task,
  and the bound holds again afterwards; so it holds in every store built from the empty
  one by additions alone.
\<close>

theorem add_task_id_fresh:
  assumes "strip descr \<noteq> []" and "add_task descr now s = (ok, out, s')"
    and "\<forall>t\<in>set (tasks s). id_num t \<le> int (length (tasks s))"
  shows "tasks s' = tasks s @ [last (tasks s')] \<and>
         id_num (last (tasks s')) = int (length (tasks s)) + 1 \<and>
         (\<forall>t\<in>set (tasks s). id_num t \<noteq> id_num (last (tasks s'))) \<and>
         (\<forall>t\<in>set (tasks s'). id_num t \<le> int (length (tasks s')))"
proof -
  have "tasks s' = tasks s @ [\<lparr>id_num = int (length (tasks s)) + 1,
                  description = strip descr, completed = False, created_at = now\<rparr>]"
    using assms(2) unfolding add_task_result [OF assms(1)]
    by (auto simp: Let_def save_tasks_tasks)
  then show ?thesis
    using assms(3) by auto
qed

theorem add_task_id_fresh_witness:
  "strip (str ''Buy milk'') \<noteq> [] \<and>
   id_num \<lparr>id_num = 1, description = str ''Walk dog'', completed = False,
           created_at = str ''2024-01-01 09:00:00''\<rparr> \<le> 1 \<and>
   id_num (last (tasks (snd (snd (add_task (str ''Buy milk'') (str ''2024-01-01 10:00:00'')
     \<lparr>tasks = [\<lparr>id_num = 1, description = str ''Walk dog'', completed = False,
                 created_at = str ''2024-01-01 09:00:00''\<rparr>],
      stored = Absent, on_write = WriteOk, save_calls = 0\<rparr>))))) = 2"
proof -
  let ?s = "\<lparr>tasks = [\<lparr>id_num = 1, description = str ''Walk dog'', completed = False,
                 created_at = str ''2024-01-01 09:00:00''\<rparr>],
      stored = Absent, on_write = WriteOk, save_calls = 0\<rparr>"
  let ?r = "add_task (str ''Buy milk'') (str ''2024-01-01 10:00:00'') ?s"
  have h: "strip (str ''Buy milk'') \<noteq> []"
    by (simp add: strip_examples str_nonempty)
  have e: "?r = (fst ?r, fst (snd ?r), snd (snd ?r))"
    by simp
  have b: "\<forall>t\<in>set (tasks ?s). id_num t \<le> int (length (tasks ?s))"
    by simp
  show ?thesis
    using h add_task_id_fresh [OF h e b] by simp
qed

text \<open>
  The claim C2 as stated fails after a deletion. Adding two tasks to the empty store and
  deleting the first leaves the one task with id 2; the next \<open>add_task\<close> succeeds and gives
  the new task the id 2 as well.
\<close>

lemma delete_first_of_two:
  "tasks (snd (snd (delete_task (str ''1'') (str ''yes'')
      (snd (snd (add_task (str ''Walk dog'') (str ''2024-01-01 09:00:00'')
        (snd (snd (add_task (str ''Buy milk'') (str ''2024-01-01 08:00:00'')
          \<lparr>tasks = [], stored = Absent, on_write = WriteOk, save_calls = 0\<rparr>))))))))) =
   [\<lparr>id_num = 2, description = str ''Walk dog'', completed = False,
     created_at = str ''2024-01-01 09:00:00''\<rparr>]"
  by (simp add: add_task_def delete_task_def save_tasks_def py_int_examples strip_examples
      str_nonempty Let_def)

theorem add_task_id_collides_after_delete:
  "fst (add_task (str ''Feed cat'') (str ''2024-01-01 10:00:00'')
     \<lparr>tasks = [\<lparr>id_num = 2, description = str ''Walk dog'', completed = False,
                 created_at = str ''2024-01-01 09:00:00''\<rparr>],
      stored = Absent, on_write = WriteOk, save_calls = 0\<rparr>) \<and>
   map id_num (tasks (snd (snd (add_task (str ''Feed cat'') (str ''2024-01-01 10:00:00'')
     \<lparr>tasks = [\<lparr>id_num = 2, description = str ''Walk dog'', completed = False,
                 created_at = str ''2024-01-01 09:00:00''\<rparr>],
      stored = Absent, on_write = WriteOk, save_calls = 0\<rparr>)))) = [2, 2]"
  by (simp add: add_task_def save_tasks_def strip_examples str_nonempty Let_def)

section \<open>Viewing\<close>

lemma shown_tasks_show:
  "shown_tasks (concat (map show_task ts) @ rest) = ts @ shown_tasks rest"
  by (induction ts) (simp_all add: show_task_def)

lemma sum_ones: "sum_list (map (\<lambda>t. 1) xs) = int (length xs)"
  by (induction xs) simp_all

text \<open>
  C3. With \<open>show_all\<close> false, the tasks \<open>view_tasks\<close> shows are exactly the tasks that are
  not completed, in the order of the list. Whenever it prints a summary, the total is the
  length of the whole list, the completed count the number of completed tasks, and the
  pending count their difference; and it does print that summary when a task is pending.
\<close>

theorem view_tasks_pending:
  "shown_tasks (view_tasks False s) = filter (\<lambda>t. \<not> completed t) (tasks s) \<and>
   (Summary tot c p \<in> set (view_tasks False s) \<longrightarrow>
      tot = int (length (tasks s)) \<and> c = int (length (filter completed (tasks s))) \<and>
      p = tot - c) \<and>
   ((\<exists>t\<in>set (tasks s). \<not> completed t) \<longrightarrow>
      Summary (int (length (tasks s))) (int (length (filter completed (tasks s))))
        (int (length (tasks s)) - int (length (filter completed (tasks s))))
      \<in> set (view_tasks False s))"
proof (intro conjI)
  show "shown_tasks (view_tasks False s) = filter (\<lambda>t. \<not> completed t) (tasks s)"
    by (simp add: view_tasks_def Let_def shown_tasks_show)
  show "Summary tot c p \<in> set (view_tasks False s) \<longrightarrow>
      tot = int (length (tasks s)) \<and> c = int (length (filter completed (tasks s))) \<and>
      p = tot - c"
    by (auto simp: view_tasks_def Let_def sum_ones show_task_def split: if_splits)
  show "(\<exists>t\<in>set (tasks s). \<not> completed t) \<longrightarrow>
      Summary (int (length (tasks s))) (int (length (filter completed (tasks s))))
        (int (length (tasks s)) - int (length (filter completed (tasks s))))
      \<in> set (view_tasks False s)"
    by (auto simp: view_tasks_def Let_def sum_ones filter_empty_conv)
qed

theorem view_tasks_pending_witness:
  "\<not> completed \<lparr>id_num = 1, description = str ''Buy milk'', completed = False,
               created_at = str ''2024-01-01 08:00:00''\<rparr> \<and>
   Summary 2 1 1 \<in> set (view_tasks False
     \<lparr>tasks = [\<lparr>id_num = 1, description = str ''Buy milk'', completed = False,
               created_at = str ''2024-01-01 08:00:00''\<rparr>,
              \<lparr>id_num = 2, description = str ''Walk dog'', completed = True,
               created_at = str ''2024-01-01 09:00:00''\<rparr>],
      stored = Absent, on_write = WriteOk, save_calls = 0\<rparr>) \<and>
   shown_tasks (view_tasks False
     \<lparr>tasks = [\<lparr>id_num = 1, description = str ''Buy milk'', completed = False,
               created_at = str ''2024-01-01 08:00:00''\<rparr>,
              \<lparr>id_num = 2, description = str ''Walk dog'', completed = True,
               created_at = str ''2024-01-01 09:00:00''\<rparr>],
      stored = Absent, on_write = WriteOk, save_calls = 0\<rparr>) =
     [\<lparr>id_num = 1, description = str ''Buy milk'', completed = False,
               created_at = str ''2024-01-01 08:00:00''\<rparr>]"
  using view_tasks_pending [of
     "\<lparr>tasks = [\<lparr>id_num = 1, description = str ''Buy milk'', completed = False,
               created_at = str ''2024-01-01 08:00:00''\<rparr>,
              \<lparr>id_num = 2, description = str ''Walk dog'', completed = True,
               created_at = str ''2024-01-01 09:00:00''\<rparr>],
      stored = Absent, on_write = WriteOk, save_calls = 0\<rparr>" 2 1 1]
  by simp

section \<open>Deleting\<close>

lemma delete_task_cancelled_iff:
  "DeletionCancelled \<in> set (fst (snd (delete_task task_id confirm s))) \<longleftrightarrow>
     (\<exists>m. py_int task_id = Some m \<and> (\<exists>t\<in>set (tasks s). id_num t = m)) \<and>
     confirm \<noteq> str ''yes''"
proof (cases "py_int task_id")
  case None
  then show ?thesis by (simp add: delete_task_def)
next
  case (Some m)
  show ?thesis
  proof (cases "find_task_index m (tasks s)")
    case None
    with Some find_task_index_None [of m "tasks s"] show ?thesis
      by (simp add: delete_task_def)
  next
    case (Some i)
    then have "\<exists>t\<in>set (tasks s). id_num t = m"
      using find_task_index_Some [of m "tasks s"] by blast
    with Some \<open>py_int task_id = Some m\<close> show ?thesis
      by (simp add: delete_task_def Let_def save_tasks_def
          split: prod.split write_outcome.split)
  qed
qed

text \<open>
  C5, as amended. An id that \<open>int\<close> rejects gives the not-a-number error; an integer of any
  sign that no task has gives the does-not-exist error; in both cases, and when the answer
  to the prompt is not \<open>yes\<close> (the cancelled outcome), the state stays as it was. With the
  answer \<open>yes\<close> exactly the first task with that id is removed, the result is \<open>True\<close>
  exactly when the save succeeds, and what is printed after the prompt is the deletion or
  the error of the save. The cancelled outcome returns \<open>False\<close>, as the failures do; it is
  told apart from them, and from the deletion, by its message, which is printed exactly
  when the id is that of a task and the answer is not \<open>yes\<close>.
\<close>

theorem delete_task_outcomes:
  "(py_int task_id = None \<longrightarrow>
      delete_task task_id confirm s = (False, [ErrIdNotNumber], s)) \<and>
   (py_int task_id = Some n \<and> (\<forall>t\<in>set (tasks s). id_num t \<noteq> n) \<longrightarrow>
      delete_task task_id confirm s = (False, [ErrNotExist n], s)) \<and>
   (py_int task_id = Some n \<and> i < length (tasks s) \<and> id_num (tasks s ! i) = n \<and>
      (\<forall>j<i. id_num (tasks s ! j) \<noteq> n) \<and> confirm \<noteq> str ''yes'' \<longrightarrow>
      delete_task task_id confirm s =
        (False, [AskDelete (description (tasks s ! i)), DeletionCancelled], s)) \<and>
   (py_int task_id = Some n \<and> i < length (tasks s) \<and> id_num (tasks s ! i) = n \<and>
      (\<forall>j<i. id_num (tasks s ! j) \<noteq> n) \<and> confirm = str ''yes'' \<longrightarrow>
      tasks (snd (snd (delete_task task_id confirm s))) =
        take i (tasks s) @ drop (Suc i) (tasks s) \<and>
      (fst (delete_task task_id confirm s) \<longleftrightarrow> on_write s = WriteOk) \<and>
      (on_write s = WriteOk \<longrightarrow>
         fst (snd (delete_task task_id confirm s)) =
           [AskDelete (description (tasks s ! i)), TaskDeleted n]) \<and>
      (on_write s = WriteFails e f \<longrightarrow>
         fst (snd (delete_task task_id confirm s)) =
           [AskDelete (description (tasks s ! i)), ErrSaving e])) \<and>
   (DeletionCancelled \<in> set (fst (snd (delete_task task_id confirm s))) \<longleftrightarrow>
      (\<exists>m. py_int task_id = Some m \<and> (\<exists>t\<in>set (tasks s). id_num t = m)) \<and>
      confirm \<noteq> str ''yes'')"
proof (intro conjI impI)
  assume "py_int task_id = None"
  then show "delete_task task_id confirm s = (False, [ErrIdNotNumber], s)"
    by (simp add: delete_task_def)
next
  assume "py_int task_id = Some n \<and> (\<forall>t\<in>set (tasks s). id_num t \<noteq> n)"
  then have "py_int task_id = Some n" and "find_task_index n (tasks s) = None"
    by (simp_all add: find_task_index_None)
  then show "delete_task task_id confirm s = (False, [ErrNotExist n], s)"
    by (simp add: delete_task_def)
next
  assume a: "py_int task_id = Some n \<and> i < length (tasks s) \<and> id_num (tasks s ! i) = n \<and>
      (\<forall>j<i. id_num (tasks s ! j) \<noteq> n) \<and> confirm \<noteq> str ''yes''"
  then have "find_task_index n (tasks s) = Some i"
    by (simp add: find_task_index_first)
  with a show "delete_task task_id confirm s =
        (False, [AskDelete (description (tasks s ! i)), DeletionCancelled], s)"
    by (simp add: delete_task_def)
next
  assume a: "py_int task_id = Some n \<and> i < length (tasks s) \<and> id_num (tasks s ! i) = n \<and>
      (\<forall>j<i. id_num (tasks s ! j) \<noteq> n) \<and> confirm = str ''yes''"
  then have f: "find_task_index n (tasks s) = Some i"
    by (simp add: find_task_index_first)
  from a f show "tasks (snd (snd (delete_task task_id confirm s))) =
        take i (tasks s) @ drop (Suc i) (tasks s)"
    by (simp add: delete_task_def Let_def save_tasks_def split: prod.split write_outcome.split)
  from a f show "fst (delete_task task_id confirm s) \<longleftrightarrow> on_write s = WriteOk"
    by (simp add: delete_task_def Let_def save_tasks_def split: prod.split write_outcome.split)
  {
    assume "on_write s = WriteOk"
    with a f show "fst (snd (delete_task task_id confirm s)) =
           [AskDelete (description (tasks s ! i)), TaskDeleted n]"
      by (simp add: delete_task_def Let_def save_tasks_def)
  }
  {
    assume "on_write s = WriteFails e f"
    with a f show "fst (snd (delete_task task_id confirm s)) =
           [AskDelete (description (tasks s ! i)), ErrSaving e]"
      by (simp add: delete_task_def Let_def save_tasks_def)
  }
next
  show "DeletionCancelled \<in> set (fst (snd (delete_task task_id confirm s))) \<longleftrightarrow>
      (\<exists>m. py_int task_id = Some m \<and> (\<exists>t\<in>set (tasks s). id_num t = m)) \<and>
      confirm \<noteq> str ''yes''"
    by (rule delete_task_cancelled_iff)
qed

lemma str_no_yes: "str ''no'' \<noteq> str ''yes''"
  by (simp add: str_def)

theorem delete_task_outcomes_witness:
  "py_int (str ''abc'') = None \<and>
   delete_task (str ''abc'') (str ''yes'')
     \<lparr>tasks = [\<lparr>id_num = 1, description = str ''Buy milk'', completed = False,
               created_at = str ''2024-01-01 08:00:00''\<rparr>,
              \<lparr>id_num = 2, description = str ''Walk dog'', completed = True,
               created_at = str ''2024-01-01 09:00:00''\<rparr>],
      stored = Absent, on_write = WriteOk, save_calls = 0\<rparr> =
     (False, [ErrIdNotNumber],
     \<lparr>tasks = [\<lparr>id_num = 1, description = str ''Buy milk'', completed = False,
               created_at = str ''2024-01-01 08:00:00''\<rparr>,
              \<lparr>id_num = 2, description = str ''Walk dog'', completed = True,
               created_at = str ''2024-01-01 09:00:00''\<rparr>],
      stored = Absent, on_write = WriteOk, save_calls = 0\<rparr>) \<and>
   py_int (str ''7'') = Some 7 \<and>
   delete_task (str ''7'') (str ''yes'')
     \<lparr>tasks = [\<lparr>id_num = 1, description = str ''Buy milk'', completed = False,
               created_at = str ''2024-01-01 08:00:00''\<rparr>,
              \<lparr>id_num = 2, description = str ''Walk dog'', completed = True,
               created_at = str ''2024-01-01 09:00:00''\<rparr>],
      stored = Absent, on_write = WriteOk, save_calls = 0\<rparr> =
     (False, [ErrNotExist 7],
     \<lparr>tasks = [\<lparr>id_num = 1, description = str ''Buy milk'', completed = False,
               created_at = str ''2024-01-01 08:00:00''\<rparr>,
              \<lparr>id_num = 2, description = str ''Walk dog'', completed = True,
               created_at = str ''2024-01-01 09:00:00''\<rparr>],
      stored = Absent, on_write = WriteOk, save_calls = 0\<rparr>) \<and>
   py_int (str ''2'') = Some 2 \<and> str ''no'' \<noteq> str ''yes'' \<and>
   delete_task (str ''2'') (str ''no'')
     \<lparr>tasks = [\<lparr>id_num = 1, description = str ''Buy milk'', completed = False,
               created_at = str ''2024-01-01 08:00:00''\<rparr>,
              \<lparr>id_num = 2, description = str ''Walk dog'', completed = True,
               created_at = str ''2024-01-01 09:00:00''\<rparr>],
      stored = Absent, on_write = WriteOk, save_calls = 0\<rparr> =
     (False, [AskDelete (str ''Walk dog''), DeletionCancelled],
     \<lparr>tasks = [\<lparr>id_num = 1, description = str ''Buy milk'', completed = False,
               created_at = str ''2024-01-01 08:00:00''\<rparr>,
              \<lparr>id_num = 2, description = str ''Walk dog'', completed = True,
               created_at = str ''2024-01-01 09:00:00''\<rparr>],
      stored = Absent, on_write = WriteOk, save_calls = 0\<rparr>) \<and>
   tasks (snd (snd (delete_task (str ''2'') (str ''yes'')
     \<lparr>tasks = [\<lparr>id_num = 1, description = str ''Buy milk'', completed = False,
               created_at = str ''2024-01-01 08:00:00''\<rparr>,
              \<lparr>id_num = 2, description = str ''Walk dog'', completed = True,
               created_at = str ''2024-01-01 09:00:00''\<rparr>],
      stored = Absent, on_write = WriteOk, save_calls = 0\<rparr>))) =
     [\<lparr>id_num = 1, description = str ''Buy milk'', completed = False,
               created_at = str ''2024-01-01 08:00:00''\<rparr>] \<and>
   fst (delete_task (str ''2'') (str ''yes'')
     \<lparr>tasks = [\<lparr>id_num = 1, description = str ''Buy milk'', completed = False,
               created_at = str ''2024-01-01 08:00:00''\<rparr>,
              \<lparr>id_num = 2, description = str ''Walk dog'', completed = True,
               created_at = str ''2024-01-01 09:00:00''\<rparr>],
      stored = Absent, on_write = WriteOk, save_calls = 0\<rparr>) \<and>
   fst (snd (delete_task (str ''2'') (str ''yes'')
     \<lparr>tasks = [\<lparr>id_num = 1, description = str ''Buy milk'', completed = False,
               created_at = str ''2024-01-01 08:00:00''\<rparr>,
              \<lparr>id_num = 2, description = str ''Walk dog'', completed = True,
               created_at = str ''2024-01-01 09:00:00''\<rparr>],
      stored = Absent, on_write = WriteOk, save_calls = 0\<rparr>)) =
     [AskDelete (str ''Walk dog''), TaskDeleted 2] \<and>
   \<not> fst (delete_task (str ''2'') (str ''yes'')
     \<lparr>tasks = [\<lparr>id_num = 1, description = str ''Buy milk'', completed = False,
               created_at = str ''2024-01-01 08:00:00''\<rparr>,
              \<lparr>id_num = 2, description = str ''Walk dog'', completed = True,
               created_at = str ''2024-01-01 09:00:00''\<rparr>],
      stored = Absent, on_write = WriteFails PermissionError Absent, save_calls = 0\<rparr>) \<and>
   fst (snd (delete_task (str ''2'') (str ''yes'')
     \<lparr>tasks = [\<lparr>id_num = 1, description = str ''Buy milk'', completed = False,
               created_at = str ''2024-01-01 08:00:00''\<rparr>,
              \<lparr>id_num = 2, description = str ''Walk dog'', completed = True,
               created_at = str ''2024-01-01 09:00:00''\<rparr>],
      stored = Absent, on_write = WriteFails PermissionError Absent, save_calls = 0\<rparr>)) =
     [AskDelete (str ''Walk dog''), ErrSaving PermissionError] \<and>
   DeletionCancelled \<in> set (fst (snd (delete_task (str ''2'') (str ''no'')
     \<lparr>tasks = [\<lparr>id_num = 1, description = str ''Buy milk'', completed = False,
               created_at = str ''2024-01-01 08:00:00''\<rparr>,
              \<lparr>id_num = 2, description = str ''Walk dog'', completed = True,
               created_at = str ''2024-01-01 09:00:00''\<rparr>],
      stored = Absent, on_write = WriteOk, save_calls = 0\<rparr>))) \<and>
   DeletionCancelled \<notin> set (fst (snd (delete_task (str ''2'') (str ''yes'')
     \<lparr>tasks = [\<lparr>id_num = 1, description = str ''Buy milk'', completed = False,
               created_at = str ''2024-01-01 08:00:00''\<rparr>,
              \<lparr>id_num = 2, description = str ''Walk dog'', completed = True,
               created_at = str ''2024-01-01 09:00:00''\<rparr>],
      stored = Absent, on_write = WriteFails PermissionError Absent, save_calls = 0\<rparr>)))"
  using
    delete_task_outcomes [of "str ''abc''" "str ''yes''"
     "\<lparr>tasks = [\<lparr>id_num = 1, description = str ''Buy milk'', completed = False,
               created_at = str ''2024-01-01 08:00:00''\<rparr>,
              \<lparr>id_num = 2, description = str ''Walk dog'', completed = True,
               created_at = str ''2024-01-01 09:00:00''\<rparr>],
      stored = Absent, on_write = WriteOk, save_calls = 0\<rparr>" 0 0]
    delete_task_outcomes [of "str ''7''" "str ''yes''"
     "\<lparr>tasks = [\<lparr>id_num = 1, description = str ''Buy milk'', completed = False,
               created_at = str ''2024-01-01 08:00:00''\<rparr>,
              \<lparr>id_num = 2, description = str ''Walk dog'', completed = True,
               created_at = str ''2024-01-01 09:00:00''\<rparr>],
      stored = Absent, on_write = WriteOk, save_calls = 0\<rparr>" 7 0]
    delete_task_outcomes [of "str ''2''" "str ''no''"
     "\<lparr>tasks = [\<lparr>id_num = 1, description = str ''Buy milk'', completed = False,
               created_at = str ''2024-01-01 08:00:00''\<rparr>,
              \<lparr>id_num = 2, description = str ''Walk dog'', completed = True,
               created_at = str ''2024-01-01 09:00:00''\<rparr>],
      stored = Absent, on_write = WriteOk, save_calls = 0\<rparr>" 2 1]
    delete_task_outcomes [of "str ''2''" "str ''yes''"
     "\<lparr>tasks = [\<lparr>id_num = 1, description = str ''Buy milk'', completed = False,
               created_at = str ''2024-01-01 08:00:00''\<rparr>,
              \<lparr>id_num = 2, description = str ''Walk dog'', completed = True,
               created_at = str ''2024-01-01 09:00:00''\<rparr>],
      stored = Absent, on_write = WriteOk, save_calls = 0\<rparr>" 2 1]
    delete_task_outcomes [of "str ''2''" "str ''yes''"
     "\<lparr>tasks = [\<lparr>id_num = 1, description = str ''Buy milk'', completed = False,
               created_at = str ''2024-01-01 08:00:00''\<rparr>,
              \<lparr>id_num = 2, description = str ''Walk dog'', completed = True,
               created_at = str ''2024-01-01 09:00:00''\<rparr>],
      stored = Absent, on_write = WriteFails PermissionError Absent, save_calls = 0\<rparr>" 2 1 PermissionError Absent]
  by (simp add: py_int_examples str_no_yes less_Suc_eq)

text \<open>
  The claim C5 as stated fails for an input that is an integer but not a positive one:
  \<open>-5\<close> is accepted by \<open>int\<close>, and the answer is that no task has this id, not that the
  id is not a number.
\<close>

theorem delete_task_negative_id_not_found:
  "delete_task (str ''-5'') (str ''yes'')
     \<lparr>tasks = [\<lparr>id_num = 1, description = str ''Buy milk'', completed = False,
               created_at = str ''2024-01-01 08:00:00''\<rparr>,
              \<lparr>id_num = 2, description = str ''Walk dog'', completed = True,
               created_at = str ''2024-01-01 09:00:00''\<rparr>],
      stored = Absent, on_write = WriteOk, save_calls = 0\<rparr> =
     (False, [ErrNotExist (- 5)],
     \<lparr>tasks = [\<lparr>id_num = 1, description = str ''Buy milk'', completed = False,
               created_at = str ''2024-01-01 08:00:00''\<rparr>,
              \<lparr>id_num = 2, description = str ''Walk dog'', completed = True,
               created_at = str ''2024-01-01 09:00:00''\<rparr>],
      stored = Absent, on_write = WriteOk, save_calls = 0\<rparr>) \<and>
   ErrNotExist (- 5) \<noteq> ErrIdNotNumber"
  by (simp add: delete_task_def py_int_examples)

section \<open>Marking\<close>

lemma mark_complete_already_iff:
  "AlreadyCompleted m \<in> set (fst (snd (mark_complete task_id s))) \<longleftrightarrow>
     (\<exists>i. py_int task_id = Some m \<and> find_task_index m (tasks s) = Some i \<and>
          completed (tasks s ! i))"
proof (cases "py_int task_id")
  case None
  then show ?thesis by (simp add: mark_complete_def)
next
  case (Some k)
  show ?thesis
  proof (cases "find_task_index k (tasks s)")
    case None
    with Some show ?thesis by (auto simp add: mark_complete_def)
  next
    case (Some i)
    with \<open>py_int task_id = Some k\<close> show ?thesis
      by (auto simp add: mark_complete_def Let_def save_tasks_def
          split: prod.split write_outcome.split)
  qed
qed

lemma mark_incomplete_already_iff:
  "AlreadyIncomplete m \<in> set (fst (snd (mark_incomplete task_id s))) \<longleftrightarrow>
     (\<exists>i. py_int task_id = Some m \<and> find_task_index m (tasks s) = Some i \<and>
          \<not> completed (tasks s ! i))"
proof (cases "py_int task_id")
  case None
  then show ?thesis by (simp add: mark_incomplete_def)
next
  case (Some k)
  show ?thesis
  proof (cases "find_task_index k (tasks s)")
    case None
    with Some show ?thesis by (auto simp add: mark_incomplete_def)
  next
    case (Some i)
    with \<open>py_int task_id = Some k\<close> show ?thesis
      by (auto simp add: mark_incomplete_def Let_def save_tasks_def
          split: prod.split write_outcome.split)
  qed
qed

lemma mark_found:
  assumes "py_int task_id = Some n" and "i < length (tasks s)" and "id_num (tasks s ! i) = n"
    and "\<forall>j<i. id_num (tasks s ! j) \<noteq> n"
  shows
   "(completed (tasks s ! i) \<longrightarrow>
       mark_complete task_id s = (False, [AlreadyCompleted n], s) \<and>
       save_calls (snd (snd (mark_complete task_id s))) = save_calls s) \<and>
    (\<not> completed (tasks s ! i) \<longrightarrow>
       completed (tasks (snd (snd (mark_complete task_id s))) ! i) \<and>
       save_calls (snd (snd (mark_complete task_id s))) = save_calls s + 1 \<and>
       (fst (mark_complete task_id s) \<longleftrightarrow> on_write s = WriteOk) \<and>
       (on_write s = WriteOk \<longrightarrow>
          fst (snd (mark_complete task_id s)) = [MarkedCompleted n] \<and>
          stored (snd (snd (mark_complete task_id s))) =
            Content (json_dump (tasks (snd (snd (mark_complete task_id s)))))) \<and>
       (on_write s = WriteFails e f \<longrightarrow>
          fst (snd (mark_complete task_id s)) = [ErrSaving e])) \<and>
    (\<not> completed (tasks s ! i) \<longrightarrow>
       mark_incomplete task_id s = (False, [AlreadyIncomplete n], s) \<and>
       save_calls (snd (snd (mark_incomplete task_id s))) = save_calls s) \<and>
    (completed (tasks s ! i) \<longrightarrow>
       \<not> completed (tasks (snd (snd (mark_incomplete task_id s))) ! i) \<and>
       save_calls (snd (snd (mark_incomplete task_id s))) = save_calls s + 1 \<and>
       (fst (mark_incomplete task_id s) \<longleftrightarrow> on_write s = WriteOk) \<and>
       (on_write s = WriteOk \<longrightarrow>
          fst (snd (mark_incomplete task_id s)) = [MarkedIncomplete n] \<and>
          stored (snd (snd (mark_incomplete task_id s))) =
            Content (json_dump (tasks (snd (snd (mark_incomplete task_id s)))))) \<and>
       (on_write s = WriteFails e f \<longrightarrow>
          fst (snd (mark_incomplete task_id s)) = [ErrSaving e]))"
proof -
  have f: "find_task_index n (tasks s) = Some i"
    using assms by (simp add: find_task_index_first)
  show ?thesis
    using assms(1,2) f
    by (simp add: mark_complete_def mark_incomplete_def Let_def save_tasks_def
        split: prod.split write_outcome.split)
qed

lemma mark_not_found:
  assumes "py_int task_id = Some n" and "\<forall>t\<in>set (tasks s). id_num t \<noteq> n"
  shows "mark_complete task_id s = (False, [ErrNotExist n], s) \<and>
         mark_incomplete task_id s = (False, [ErrNotExist n], s)"
proof -
  have "find_task_index n (tasks s) = None"
    using assms(2) by (simp add: find_task_index_None)
  with assms(1) show ?thesis
    by (simp add: mark_complete_def mark_incomplete_def)
qed

text \<open>
  C6. An id that \<open>int\<close> rejects and an id that no task has are the two failures: each prints
  its error, returns \<open>False\<close> and leaves the state as it was. For the id of a task (\<open>i\<close> is
  the position of the first task with that id), \<open>mark_complete\<close> on a completed task prints
  that it is already completed, returns \<open>False\<close> and leaves the whole state as it was, so
  \<open>save_tasks\<close> is not called; on a pending task it sets the flag and calls \<open>save_tasks\<close>
  once, and when the write succeeds the file holds the new list and the change is
  announced, and when it fails the error of the save is printed. The no-op returns \<open>False\<close>
  as the failures do; it is told apart from them and from the change by its message, which
  is printed exactly when the first task with the id already has the flag.
  \<open>mark_incomplete\<close> does the same with the flag reversed.
\<close>

theorem mark_noop_or_change:
  "(py_int task_id = None \<longrightarrow>
      mark_complete task_id s = (False, [ErrIdNotNumber], s) \<and>
      mark_incomplete task_id s = (False, [ErrIdNotNumber], s)) \<and>
   (py_int task_id = Some n \<and> (\<forall>t\<in>set (tasks s). id_num t \<noteq> n) \<longrightarrow>
      mark_complete task_id s = (False, [ErrNotExist n], s) \<and>
      mark_incomplete task_id s = (False, [ErrNotExist n], s)) \<and>
   (py_int task_id = Some n \<and> i < length (tasks s) \<and> id_num (tasks s ! i) = n \<and>
      (\<forall>j<i. id_num (tasks s ! j) \<noteq> n) \<longrightarrow>
    (completed (tasks s ! i) \<longrightarrow>
       mark_complete task_id s = (False, [AlreadyCompleted n], s) \<and>
       save_calls (snd (snd (mark_complete task_id s))) = save_calls s) \<and>
    (\<not> completed (tasks s ! i) \<longrightarrow>
       completed (tasks (snd (snd (mark_complete task_id s))) ! i) \<and>
       save_calls (snd (snd (mark_complete task_id s))) = save_calls s + 1 \<and>
       (fst (mark_complete task_id s) \<longleftrightarrow> on_write s = WriteOk) \<and>
       (on_write s = WriteOk \<longrightarrow>
          fst (snd (mark_complete task_id s)) = [MarkedCompleted n] \<and>
          stored (snd (snd (mark_complete task_id s))) =
            Content (json_dump (tasks (snd (snd (mark_complete task_id s)))))) \<and>
       (on_write s = WriteFails e f \<longrightarrow>
          fst (snd (mark_complete task_id s)) = [ErrSaving e])) \<and>
    (\<not> completed (tasks s ! i) \<longrightarrow>
       mark_incomplete task_id s = (False, [AlreadyIncomplete n], s) \<and>
       save_calls (snd (snd (mark_incomplete task_id s))) = save_calls s) \<and>
    (completed (tasks s ! i) \<longrightarrow>
       \<not> completed (tasks (snd (snd (mark_incomplete task_id s))) ! i) \<and>
       save_calls (snd (snd (mark_incomplete task_id s))) = save_calls s + 1 \<and>
       (fst (mark_incomplete task_id s) \<longleftrightarrow> on_write s = WriteOk) \<and>
       (on_write s = WriteOk \<longrightarrow>
          fst (snd (mark_incomplete task_id s)) = [MarkedIncomplete n] \<and>
          stored (snd (snd (mark_incomplete task_id s))) =
            Content (json_dump (tasks (snd (snd (mark_incomplete task_id s)))))) \<and>
       (on_write s = WriteFails e f \<longrightarrow>
          fst (snd (mark_incomplete task_id s)) = [ErrSaving e]))) \<and>
   (AlreadyCompleted m \<in> set (fst (snd (mark_complete task_id s))) \<longleftrightarrow>
      (\<exists>k. py_int task_id = Some m \<and> k < length (tasks s) \<and> id_num (tasks s ! k) = m \<and>
           (\<forall>j<k. id_num (tasks s ! j) \<noteq> m) \<and> completed (tasks s ! k))) \<and>
   (AlreadyIncomplete m \<in> set (fst (snd (mark_incomplete task_id s))) \<longleftrightarrow>
      (\<exists>k. py_int task_id = Some m \<and> k < length (tasks s) \<and> id_num (tasks s ! k) = m \<and>
           (\<forall>j<k. id_num (tasks s ! j) \<noteq> m) \<and> \<not> completed (tasks s ! k)))"
proof -
  have a: "py_int task_id = None \<longrightarrow>
      mark_complete task_id s = (False, [ErrIdNotNumber], s) \<and>
      mark_incomplete task_id s = (False, [ErrIdNotNumber], s)"
    by (simp add: mark_complete_def mark_incomplete_def)
  have b: "py_int task_id = Some n \<and> (\<forall>t\<in>set (tasks s). id_num t \<noteq> n) \<longrightarrow>
      mark_complete task_id s = (False, [ErrNotExist n], s) \<and>
      mark_incomplete task_id s = (False, [ErrNotExist n], s)"
    using mark_not_found [of task_id n s] by blast
  note c = mark_found [of task_id n i s e f]
  note d = mark_complete_already_iff [of m task_id s, unfolded find_task_index_first]
  note d' = mark_incomplete_already_iff [of m task_id s, unfolded find_task_index_first]
  from a b c d d' show ?thesis by blast
qed

theorem mark_noop_or_change_witness:
  "py_int (str ''abc'') = None \<and> py_int (str ''7'') = Some 7 \<and>
   py_int (str ''2'') = Some 2 \<and> py_int (str ''1'') = Some 1 \<and>
   mark_complete (str ''abc'')
     \<lparr>tasks = [\<lparr>id_num = 1, description = str ''Buy milk'', completed = False,
               created_at = str ''2024-01-01 08:00:00''\<rparr>,
              \<lparr>id_num = 2, description = str ''Walk dog'', completed = True,
               created_at = str ''2024-01-01 09:00:00''\<rparr>],
      stored = Absent, on_write = WriteOk, save_calls = 0\<rparr> =
     (False, [ErrIdNotNumber],
     \<lparr>tasks = [\<lparr>id_num = 1, description = str ''Buy milk'', completed = False,
               created_at = str ''2024-01-01 08:00:00''\<rparr>,
              \<lparr>id_num = 2, description = str ''Walk dog'', completed = True,
               created_at = str ''2024-01-01 09:00:00''\<rparr>],
      stored = Absent, on_write = WriteOk, save_calls = 0\<rparr>) \<and>
   mark_incomplete (str ''7'')
     \<lparr>tasks = [\<lparr>id_num = 1, description = str ''Buy milk'', completed = False,
               created_at = str ''2024-01-01 08:00:00''\<rparr>,
              \<lparr>id_num = 2, description = str ''Walk dog'', completed = True,
               created_at = str ''2024-01-01 09:00:00''\<rparr>],
      stored = Absent, on_write = WriteOk, save_calls = 0\<rparr> =
     (False, [ErrNotExist 7],
     \<lparr>tasks = [\<lparr>id_num = 1, description = str ''Buy milk'', completed = False,
               created_at = str ''2024-01-01 08:00:00''\<rparr>,
              \<lparr>id_num = 2, description = str ''Walk dog'', completed = True,
               created_at = str ''2024-01-01 09:00:00''\<rparr>],
      stored = Absent, on_write = WriteOk, save_calls = 0\<rparr>) \<and>
   mark_complete (str ''2'')
     \<lparr>tasks = [\<lparr>id_num = 1, description = str ''Buy milk'', completed = False,
               created_at = str ''2024-01-01 08:00:00''\<rparr>,
              \<lparr>id_num = 2, description = str ''Walk dog'', completed = True,
               created_at = str ''2024-01-01 09:00:00''\<rparr>],
      stored = Absent, on_write = WriteOk, save_calls = 0\<rparr> =
     (False, [AlreadyCompleted 2],
     \<lparr>tasks = [\<lparr>id_num = 1, description = str ''Buy milk'', completed = False,
               created_at = str ''2024-01-01 08:00:00''\<rparr>,
              \<lparr>id_num = 2, description = str ''Walk dog'', completed = True,
               created_at = str ''2024-01-01 09:00:00''\<rparr>],
      stored = Absent, on_write = WriteOk, save_calls = 0\<rparr>) \<and>
   mark_incomplete (str ''1'')
     \<lparr>tasks = [\<lparr>id_num = 1, description = str ''Buy milk'', completed = False,
               created_at = str ''2024-01-01 08:00:00''\<rparr>,
              \<lparr>id_num = 2, description = str ''Walk dog'', completed = True,
               created_at = str ''2024-01-01 09:00:00''\<rparr>],
      stored = Absent, on_write = WriteOk, save_calls = 0\<rparr> =
     (False, [AlreadyIncomplete 1],
     \<lparr>tasks = [\<lparr>id_num = 1, description = str ''Buy milk'', completed = False,
               created_at = str ''2024-01-01 08:00:00''\<rparr>,
              \<lparr>id_num = 2, description = str ''Walk dog'', completed = True,
               created_at = str ''2024-01-01 09:00:00''\<rparr>],
      stored = Absent, on_write = WriteOk, save_calls = 0\<rparr>) \<and>
   fst (mark_complete (str ''1'')
     \<lparr>tasks = [\<lparr>id_num = 1, description = str ''Buy milk'', completed = False,
               created_at = str ''2024-01-01 08:00:00''\<rparr>,
              \<lparr>id_num = 2, description = str ''Walk dog'', completed = True,
               created_at = str ''2024-01-01 09:00:00''\<rparr>],
      stored = Absent, on_write = WriteOk, save_calls = 0\<rparr>) \<and>
   fst (snd (mark_complete (str ''1'')
     \<lparr>tasks = [\<lparr>id_num = 1, description = str ''Buy milk'', completed = False,
               created_at = str ''2024-01-01 08:00:00''\<rparr>,
              \<lparr>id_num = 2, description = str ''Walk dog'', completed = True,
               created_at = str ''2024-01-01 09:00:00''\<rparr>],
      stored = Absent, on_write = WriteOk, save_calls = 0\<rparr>)) = [MarkedCompleted 1] \<and>
   save_calls (snd (snd (mark_complete (str ''1'')
     \<lparr>tasks = [\<lparr>id_num = 1, description = str ''Buy milk'', completed = False,
               created_at = str ''2024-01-01 08:00:00''\<rparr>,
              \<lparr>id_num = 2, description = str ''Walk dog'', completed = True,
               created_at = str ''2024-01-01 09:00:00''\<rparr>],
      stored = Absent, on_write = WriteOk, save_calls = 0\<rparr>))) = 1 \<and>
   fst (snd (mark_incomplete (str ''2'')
     \<lparr>tasks = [\<lparr>id_num = 1, description = str ''Buy milk'', completed = False,
               created_at = str ''2024-01-01 08:00:00''\<rparr>,
              \<lparr>id_num = 2, description = str ''Walk dog'', completed = True,
               created_at = str ''2024-01-01 09:00:00''\<rparr>],
      stored = Absent, on_write = WriteOk, save_calls = 0\<rparr>)) = [MarkedIncomplete 2] \<and>
   save_calls (snd (snd (mark_incomplete (str ''2'')
     \<lparr>tasks = [\<lparr>id_num = 1, description = str ''Buy milk'', completed = False,
               created_at = str ''2024-01-01 08:00:00''\<rparr>,
              \<lparr>id_num = 2, description = str ''Walk dog'', completed = True,
               created_at = str ''2024-01-01 09:00:00''\<rparr>],
      stored = Absent, on_write = WriteOk, save_calls = 0\<rparr>))) = 1 \<and>
   \<not> fst (mark_complete (str ''1'')
     \<lparr>tasks = [\<lparr>id_num = 1, description = str ''Buy milk'', completed = False,
               created_at = str ''2024-01-01 08:00:00''\<rparr>,
              \<lparr>id_num = 2, description = str ''Walk dog'', completed = True,
               created_at = str ''2024-01-01 09:00:00''\<rparr>],
      stored = Absent, on_write = WriteFails PermissionError Absent, save_calls = 0\<rparr>) \<and>
   fst (snd (mark_complete (str ''1'')
     \<lparr>tasks = [\<lparr>id_num = 1, description = str ''Buy milk'', completed = False,
               created_at = str ''2024-01-01 08:00:00''\<rparr>,
              \<lparr>id_num = 2, description = str ''Walk dog'', completed = True,
               created_at = str ''2024-01-01 09:00:00''\<rparr>],
      stored = Absent, on_write = WriteFails PermissionError Absent, save_calls = 0\<rparr>)) = [ErrSaving PermissionError] \<and>
   fst (snd (mark_incomplete (str ''2'')
     \<lparr>tasks = [\<lparr>id_num = 1, description = str ''Buy milk'', completed = False,
               created_at = str ''2024-01-01 08:00:00''\<rparr>,
              \<lparr>id_num = 2, description = str ''Walk dog'', completed = True,
               created_at = str ''2024-01-01 09:00:00''\<rparr>],
      stored = Absent, on_write = WriteFails PermissionError Absent, save_calls = 0\<rparr>)) = [ErrSaving PermissionError] \<and>
   AlreadyCompleted 2 \<in> set (fst (snd (mark_complete (str ''2'')
     \<lparr>tasks = [\<lparr>id_num = 1, description = str ''Buy milk'', completed = False,
               created_at = str ''2024-01-01 08:00:00''\<rparr>,
              \<lparr>id_num = 2, description = str ''Walk dog'', completed = True,
               created_at = str ''2024-01-01 09:00:00''\<rparr>],
      stored = Absent, on_write = WriteOk, save_calls = 0\<rparr>))) \<and>
   AlreadyCompleted 1 \<notin> set (fst (snd (mark_complete (str ''1'')
     \<lparr>tasks = [\<lparr>id_num = 1, description = str ''Buy milk'', completed = False,
               created_at = str ''2024-01-01 08:00:00''\<rparr>,
              \<lparr>id_num = 2, description = str ''Walk dog'', completed = True,
               created_at = str ''2024-01-01 09:00:00''\<rparr>],
      stored = Absent, on_write = WriteFails PermissionError Absent, save_calls = 0\<rparr>))) \<and>
   AlreadyIncomplete 1 \<in> set (fst (snd (mark_incomplete (str ''1'')
     \<lparr>tasks = [\<lparr>id_num = 1, description = str ''Buy milk'', completed = False,
               created_at = str ''2024-01-01 08:00:00''\<rparr>,
              \<lparr>id_num = 2, description = str ''Walk dog'', completed = True,
               created_at = str ''2024-01-01 09:00:00''\<rparr>],
      stored = Absent, on_write = WriteOk, save_calls = 0\<rparr>)))"
  using
    mark_noop_or_change [of "str ''abc''"
     "\<lparr>tasks = [\<lparr>id_num = 1, description = str ''Buy milk'', completed = False,
               created_at = str ''2024-01-01 08:00:00''\<rparr>,
              \<lparr>id_num = 2, description = str ''Walk dog'', completed = True,
               created_at = str ''2024-01-01 09:00:00''\<rparr>],
      stored = Absent, on_write = WriteOk, save_calls = 0\<rparr>" 0 0]
    mark_noop_or_change [of "str ''7''"
     "\<lparr>tasks = [\<lparr>id_num = 1, description = str ''Buy milk'', completed = False,
               created_at = str ''2024-01-01 08:00:00''\<rparr>,
              \<lparr>id_num = 2, description = str ''Walk dog'', completed = True,
               created_at = str ''2024-01-01 09:00:00''\<rparr>],
      stored = Absent, on_write = WriteOk, save_calls = 0\<rparr>" 7 0]
    mark_noop_or_change [of "str ''2''"
     "\<lparr>tasks = [\<lparr>id_num = 1, description = str ''Buy milk'', completed = False,
               created_at = str ''2024-01-01 08:00:00''\<rparr>,
              \<lparr>id_num = 2, description = str ''Walk dog'', completed = True,
               created_at = str ''2024-01-01 09:00:00''\<rparr>],
      stored = Absent, on_write = WriteOk, save_calls = 0\<rparr>" 2 1]
    mark_noop_or_change [of "str ''1''"
     "\<lparr>tasks = [\<lparr>id_num = 1, description = str ''Buy milk'', completed = False,
               created_at = str ''2024-01-01 08:00:00''\<rparr>,
              \<lparr>id_num = 2, description = str ''Walk dog'', completed = True,
               created_at = str ''2024-01-01 09:00:00''\<rparr>],
      stored = Absent, on_write = WriteOk, save_calls = 0\<rparr>" 1 0]
    mark_noop_or_change [of "str ''1''"
     "\<lparr>tasks = [\<lparr>id_num = 1, description = str ''Buy milk'', completed = False,
               created_at = str ''2024-01-01 08:00:00''\<rparr>,
              \<lparr>id_num = 2, description = str ''Walk dog'', completed = True,
               created_at = str ''2024-01-01 09:00:00''\<rparr>],
      stored = Absent, on_write = WriteFails PermissionError Absent, save_calls = 0\<rparr>" 1 0 PermissionError Absent]
    mark_noop_or_change [of "str ''2''"
     "\<lparr>tasks = [\<lparr>id_num = 1, description = str ''Buy milk'', completed = False,
               created_at = str ''2024-01-01 08:00:00''\<rparr>,
              \<lparr>id_num = 2, description = str ''Walk dog'', completed = True,
               created_at = str ''2024-01-01 09:00:00''\<rparr>],
      stored = Absent, on_write = WriteFails PermissionError Absent, save_calls = 0\<rparr>" 2 1 PermissionError Absent]
  by (simp add: py_int_examples less_Suc_eq)

text \<open>
  C10. When \<open>mark_complete\<close> changes a pending task, the new list is the old one with
  the \<open>completed\<close> field of the first task with that id set: the length and the order are
  the same, every other task is unchanged, and so are the id, the description and the
  timestamp of the task itself. The same holds of \<open>mark_incomplete\<close> on a completed task.
\<close>

theorem mark_frame:
  assumes "py_int task_id = Some n" and "i < length (tasks s)" and "id_num (tasks s ! i) = n"
    and "\<forall>j<i. id_num (tasks s ! j) \<noteq> n"
  shows
   "(\<not> completed (tasks s ! i) \<longrightarrow>
       tasks (snd (snd (mark_complete task_id s))) =
         (tasks s)[i := (tasks s ! i)\<lparr>completed := True\<rparr>] \<and>
       length (tasks (snd (snd (mark_complete task_id s)))) = length (tasks s) \<and>
       (\<forall>j<length (tasks s). j \<noteq> i \<longrightarrow>
          tasks (snd (snd (mark_complete task_id s))) ! j = tasks s ! j) \<and>
       id_num (tasks (snd (snd (mark_complete task_id s))) ! i) = id_num (tasks s ! i) \<and>
       description (tasks (snd (snd (mark_complete task_id s))) ! i) =
         description (tasks s ! i) \<and>
       created_at (tasks (snd (snd (mark_complete task_id s))) ! i) =
         created_at (tasks s ! i) \<and>
       completed (tasks (snd (snd (mark_complete task_id s))) ! i)) \<and>
    (completed (tasks s ! i) \<longrightarrow>
       tasks (snd (snd (mark_incomplete task_id s))) =
         (tasks s)[i := (tasks s ! i)\<lparr>completed := False\<rparr>] \<and>
       length (tasks (snd (snd (mark_incomplete task_id s)))) = length (tasks s) \<and>
       (\<forall>j<length (tasks s). j \<noteq> i \<longrightarrow>
          tasks (snd (snd (mark_incomplete task_id s))) ! j = tasks s ! j) \<and>
       id_num (tasks (snd (snd (mark_incomplete task_id s))) ! i) = id_num (tasks s ! i) \<and>
       description (tasks (snd (snd (mark_incomplete task_id s))) ! i) =
         description (tasks s ! i) \<and>
       created_at (tasks (snd (snd (mark_incomplete task_id s))) ! i) =
         created_at (tasks s ! i) \<and>
       \<not> completed (tasks (snd (snd (mark_incomplete task_id s))) ! i))"
proof -
  have f: "find_task_index n (tasks s) = Some i"
    using assms by (simp add: find_task_index_first)
  show ?thesis
    using assms(1,2) f
    by (simp add: mark_complete_def mark_incomplete_def Let_def save_tasks_def
        split: prod.split write_outcome.split)
qed

theorem mark_frame_witness:
  "py_int (str ''1'') = Some 1 \<and> py_int (str ''2'') = Some 2 \<and>
   tasks (snd (snd (mark_complete (str ''1'')
     \<lparr>tasks = [\<lparr>id_num = 1, description = str ''Buy milk'', completed = False,
               created_at = str ''2024-01-01 08:00:00''\<rparr>,
              \<lparr>id_num = 2, description = str ''Walk dog'', completed = True,
               created_at = str ''2024-01-01 09:00:00''\<rparr>],
      stored = Absent, on_write = WriteOk, save_calls = 0\<rparr>))) =
     [\<lparr>id_num = 1, description = str ''Buy milk'', completed = True,
               created_at = str ''2024-01-01 08:00:00''\<rparr>,
      \<lparr>id_num = 2, description = str ''Walk dog'', completed = True,
               created_at = str ''2024-01-01 09:00:00''\<rparr>] \<and>
   tasks (snd (snd (mark_incomplete (str ''2'')
     \<lparr>tasks = [\<lparr>id_num = 1, description = str ''Buy milk'', completed = False,
               created_at = str ''2024-01-01 08:00:00''\<rparr>,
              \<lparr>id_num = 2, description = str ''Walk dog'', completed = True,
               created_at = str ''2024-01-01 09:00:00''\<rparr>],
      stored = Absent, on_write = WriteOk, save_calls = 0\<rparr>))) =
     [\<lparr>id_num = 1, description = str ''Buy milk'', completed = False,
               created_at = str ''2024-01-01 08:00:00''\<rparr>,
      \<lparr>id_num = 2, description = str ''Walk dog'', completed = False,
               created_at = str ''2024-01-01 09:00:00''\<rparr>]"
  using
    mark_frame [of "str ''1''" 1 0
     "\<lparr>tasks = [\<lparr>id_num = 1, description = str ''Buy milk'', completed = False,
               created_at = str ''2024-01-01 08:00:00''\<rparr>,
              \<lparr>id_num = 2, description = str ''Walk dog'', completed = True,
               created_at = str ''2024-01-01 09:00:00''\<rparr>],
      stored = Absent, on_write = WriteOk, save_calls = 0\<rparr>"]
    mark_frame [of "str ''2''" 2 1
     "\<lparr>tasks = [\<lparr>id_num = 1, description = str ''Buy milk'', completed = False,
               created_at = str ''2024-01-01 08:00:00''\<rparr>,
              \<lparr>id_num = 2, description = str ''Walk dog'', completed = True,
               created_at = str ''2024-01-01 09:00:00''\<rparr>],
      stored = Absent, on_write = WriteOk, save_calls = 0\<rparr>"]
  by (simp add: py_int_examples)

section \<open>Clearing\<close>

text \<open>
  C7, as amended. With no completed task, \<open>clear_completed\<close> prints that there is nothing
  to clear, whatever the answer would be, without prompting, and leaves the state as it
  was. With \<open>N > 0\<close> completed tasks and the answer \<open>yes\<close> the list becomes the pending
  tasks in their order (\<open>N\<close> tasks fewer); the result is \<open>True\<close>, and the count \<open>N\<close> is
  reported as cleared, exactly when the save succeeds; when the save fails its error is
  printed instead.
\<close>

theorem clear_completed_outcomes:
  "(filter completed (tasks s) = [] \<longrightarrow>
      clear_completed confirm s = (False, [NoCompletedToClear], s)) \<and>
   (filter completed (tasks s) \<noteq> [] \<and> confirm = str ''yes'' \<longrightarrow>
      tasks (snd (snd (clear_completed confirm s))) = filter (\<lambda>t. \<not> completed t) (tasks s) \<and>
      length (tasks (snd (snd (clear_completed confirm s)))) +
        length (filter completed (tasks s)) = length (tasks s) \<and>
      (fst (clear_completed confirm s) \<longleftrightarrow> on_write s = WriteOk) \<and>
      (Cleared (length (filter completed (tasks s)))
         \<in> set (fst (snd (clear_completed confirm s))) \<longleftrightarrow> on_write s = WriteOk) \<and>
      (on_write s = WriteOk \<longrightarrow>
         fst (snd (clear_completed confirm s)) =
           [AskClear (length (filter completed (tasks s))),
            Cleared (length (filter completed (tasks s)))]) \<and>
      (on_write s = WriteFails e f \<longrightarrow>
         fst (snd (clear_completed confirm s)) =
           [AskClear (length (filter completed (tasks s))), ErrSaving e]))"
proof -
  have len: "length (filter (\<lambda>t. \<not> completed t) (tasks s)) +
      length (filter completed (tasks s)) = length (tasks s)"
    using sum_length_filter_compl [of completed "tasks s"] by simp
  show ?thesis
    using len
    by (simp add: clear_completed_def Let_def save_tasks_def
        split: prod.split write_outcome.split)
qed

theorem clear_completed_outcomes_witness:
  "filter completed [\<lparr>id_num = 1, description = str ''Buy milk'', completed = False,
               created_at = str ''2024-01-01 08:00:00''\<rparr>] = [] \<and>
   clear_completed (str ''yes'')
     \<lparr>tasks = [\<lparr>id_num = 1, description = str ''Buy milk'', completed = False,
               created_at = str ''2024-01-01 08:00:00''\<rparr>],
      stored = Absent, on_write = WriteOk, save_calls = 0\<rparr> =
     (False, [NoCompletedToClear],
     \<lparr>tasks = [\<lparr>id_num = 1, description = str ''Buy milk'', completed = False,
               created_at = str ''2024-01-01 08:00:00''\<rparr>],
      stored = Absent, on_write = WriteOk, save_calls = 0\<rparr>) \<and>
   tasks (snd (snd (clear_completed (str ''yes'')
     \<lparr>tasks = [\<lparr>id_num = 1, description = str ''Buy milk'', completed = False,
               created_at = str ''2024-01-01 08:00:00''\<rparr>,
              \<lparr>id_num = 2, description = str ''Walk dog'', completed = True,
               created_at = str ''2024-01-01 09:00:00''\<rparr>],
      stored = Absent, on_write = WriteOk, save_calls = 0\<rparr>))) =
     [\<lparr>id_num = 1, description = str ''Buy milk'', completed = False,
               created_at = str ''2024-01-01 08:00:00''\<rparr>] \<and>
   fst (snd (clear_completed (str ''yes'')
     \<lparr>tasks = [\<lparr>id_num = 1, description = str ''Buy milk'', completed = False,
               created_at = str ''2024-01-01 08:00:00''\<rparr>,
              \<lparr>id_num = 2, description = str ''Walk dog'', completed = True,
               created_at = str ''2024-01-01 09:00:00''\<rparr>],
      stored = Absent, on_write = WriteOk, save_calls = 0\<rparr>)) = [AskClear 1, Cleared 1] \<and>
   fst (snd (clear_completed (str ''yes'')
     \<lparr>tasks = [\<lparr>id_num = 1, description = str ''Buy milk'', completed = False,
               created_at = str ''2024-01-01 08:00:00''\<rparr>,
              \<lparr>id_num = 2, description = str ''Walk dog'', completed = True,
               created_at = str ''2024-01-01 09:00:00''\<rparr>],
      stored = Absent, on_write = WriteFails PermissionError Absent, save_calls = 0\<rparr>)) =
     [AskClear 1, ErrSaving PermissionError]"
  using
    clear_completed_outcomes [of
     "\<lparr>tasks = [\<lparr>id_num = 1, description = str ''Buy milk'', completed = False,
               created_at = str ''2024-01-01 08:00:00''\<rparr>],
      stored = Absent, on_write = WriteOk, save_calls = 0\<rparr>" "str ''yes''"]
    clear_completed_outcomes [of
     "\<lparr>tasks = [\<lparr>id_num = 1, description = str ''Buy milk'', completed = False,
               created_at = str ''2024-01-01 08:00:00''\<rparr>,
              \<lparr>id_num = 2, description = str ''Walk dog'', completed = True,
               created_at = str ''2024-01-01 09:00:00''\<rparr>],
      stored = Absent, on_write = WriteOk, save_calls = 0\<rparr>" "str ''yes''"]
    clear_completed_outcomes [of
     "\<lparr>tasks = [\<lparr>id_num = 1, description = str ''Buy milk'', completed = False,
               created_at = str ''2024-01-01 08:00:00''\<rparr>,
              \<lparr>id_num = 2, description = str ''Walk dog'', completed = True,
               created_at = str ''2024-01-01 09:00:00''\<rparr>],
      stored = Absent, on_write = WriteFails PermissionError Absent, save_calls = 0\<rparr>"
     "str ''yes''" PermissionError Absent]
  by simp

text \<open>
  The claim C7 as stated fails where the save fails: one completed task and the answer
  \<open>yes\<close>, and what is reported is the error of the save, not a cleared count.
\<close>

theorem clear_completed_no_report_when_save_fails:
  "clear_completed (str ''yes'')
     \<lparr>tasks = [\<lparr>id_num = 1, description = str ''Buy milk'', completed = False,
               created_at = str ''2024-01-01 08:00:00''\<rparr>,
              \<lparr>id_num = 2, description = str ''Walk dog'', completed = True,
               created_at = str ''2024-01-01 09:00:00''\<rparr>],
      stored = Absent, on_write = WriteFails PermissionError Absent, save_calls = 0\<rparr> =
     (False, [AskClear 1, ErrSaving PermissionError],
      \<lparr>tasks = [\<lparr>id_num = 1, description = str ''Buy milk'', completed = False,
               created_at = str ''2024-01-01 08:00:00''\<rparr>],
      stored = Absent, on_write = WriteFails PermissionError Absent, save_calls = 1\<rparr>)"
  by (simp add: clear_completed_def save_tasks_def Let_def)

section \<open>The scanner\<close>

text \<open>
  Every successful scan consumes text, so the tests of the scanner on the length of the
  rest always hold; and the only exceptions \<open>json.loads\<close> raises are \<open>JSONDecodeError\<close>,
  \<open>RecursionError\<close> and \<open>ValueError\<close>.
\<close>

lemma scan_escape_shorter: "scan_escape s = Some (c, r) \<Longrightarrow> length r < length s"
  by (auto simp: scan_escape_def split: list.splits if_splits option.splits)

lemma scanstring_shorter:
  "scanstring s acc = Inr (x, r) \<Longrightarrow> length r < length s"
proof (induction s acc rule: scanstring.induct)
  case (1 acc)
  then show ?case by (simp add: scanstring.simps)
next
  case (2 c cs acc)
  show ?case
  proof (cases "c = 34")
    case True
    with 2(3) show ?thesis by (simp add: scanstring.simps)
  next
    case n34: False
    show ?thesis
    proof (cases "c = 92")
      case True
      with n34 2(3) obtain c' r' where e: "scan_escape cs = Some (c', r')"
        and "scanstring r' (acc @ [c']) = Inr (x, r)"
        by (auto simp: scanstring.simps split: option.splits)
      with 2(1) [OF n34 True e [THEN sym, THEN sym]] scan_escape_shorter [OF e]
      show ?thesis by simp
    next
      case False
      with n34 2(3) have "\<not> c \<le> 31" and "scanstring cs (acc @ [c]) = Inr (x, r)"
        by (auto simp: scanstring.simps split: if_splits)
      with 2(2) [OF n34 False] show ?thesis by simp
    qed
  qed
qed

lemma scan_fraction_shorter: "scan_fraction t = Some (f, r) \<Longrightarrow> length r \<le> length t"
  using length_dropWhile_le [of is_digit "tl (tl t)"]
  by (auto simp: scan_fraction_def split: list.splits if_splits)

lemma scan_exponent_shorter: "scan_exponent t = Some (x, r) \<Longrightarrow> length r \<le> length t"
  using length_dropWhile_le [of is_digit "tl (tl t)"] length_dropWhile_le [of is_digit "tl t"]
  by (auto simp: scan_exponent_def Let_def split: list.splits if_splits)

lemma scan_number_shorter:
  assumes "scan_number s = Inr (v, r)"
  shows "length r < length s"
proof -
  define p where "p = (case s of [] \<Rightarrow> ([], s) | c # r \<Rightarrow> if c = 45 then ([c], r) else ([], s))"
  obtain sign s1 where s1: "p = (sign, s1)"
    by (cases p)
  have l1: "length s1 \<le> length s"
    using s1 unfolding p_def by (auto split: list.splits if_splits)
  have a1: "(case s1 of [] \<Rightarrow> Inl StopIteration
      | c # r \<Rightarrow>
          if \<not> is_digit c then Inl StopIteration
          else
            let (ds, r1) = (if c = 48 then ([c], r)
                            else (c # takeWhile is_digit r, dropWhile is_digit r));
                (frac, r2) = (case scan_fraction r1 of
                                None \<Rightarrow> ([], r1) | Some (f, r') \<Rightarrow> (f, r'));
                (ex, r3) = (case scan_exponent r2 of
                              None \<Rightarrow> ([], r2) | Some (x, r') \<Rightarrow> (x, r'))
            in if frac = [] \<and> ex = []
               then if 4300 < length ds then Inl ValueError
                    else Inr (JInt (if sign = [] then int (digits_value ds)
                                     else - int (digits_value ds)), r3)
               else Inr (JFloat (sign @ ds @ frac @ ex), r3)) = Inr (v, r)"
    using assms s1 unfolding scan_number_def p_def [symmetric] by simp
  then obtain c r0 where c: "s1 = c # r0" and d: "is_digit c"
    by (cases s1) (auto split: if_splits)
  define q where "q = (if c = 48 then ([c], r0)
                       else (c # takeWhile is_digit r0, dropWhile is_digit r0))"
  obtain ds r1 where r1: "q = (ds, r1)"
    by (cases q)
  have l2: "length r1 \<le> length r0"
    using r1 length_dropWhile_le [of is_digit r0] unfolding q_def by (auto split: if_splits)
  define q2 where "q2 = (case scan_fraction r1 of None \<Rightarrow> ([], r1) | Some (f, r') \<Rightarrow> (f, r'))"
  obtain frac r2 where r2: "q2 = (frac, r2)"
    by (cases q2)
  have l3: "length r2 \<le> length r1"
    using r2 scan_fraction_shorter [of r1] unfolding q2_def by (auto split: option.splits)
  define q3 where "q3 = (case scan_exponent r2 of None \<Rightarrow> ([], r2) | Some (x, r') \<Rightarrow> (x, r'))"
  obtain ex r3 where r3: "q3 = (ex, r3)"
    by (cases q3)
  have l4: "length r3 \<le> length r2"
    using r3 scan_exponent_shorter [of r2] unfolding q3_def by (auto split: option.splits)
  have "r = r3"
    using a1 d unfolding c
    by (simp add: q_def [symmetric] r1 q2_def [symmetric] r2 q3_def [symmetric] r3
        split: if_splits)
  with l1 l2 l3 l4 c show ?thesis by simp
qed

lemma scan_number_error:
  "scan_number s = Inl e \<Longrightarrow> e = StopIteration \<or> e = ValueError"
  by (auto simp: scan_number_def Let_def split: list.splits if_splits prod.splits)

lemma skip_ws_length: "length (skip_ws s) \<le> length s"
  by (simp add: skip_ws_def length_dropWhile_le)

lemma skip_ws_Cons_length: "skip_ws s = q # r \<Longrightarrow> length r < length s"
  using skip_ws_length [of s] by simp

lemma scanner_shorter:
  "\<forall>v r. scan_once d s = Inr (v, r) \<longrightarrow> length r < length s"
  "\<forall>v r. parse_array d1 s1 acc1 = Inr (v, r) \<longrightarrow> length r < length s1"
  "\<forall>v r. parse_object d2 s2 acc2 = Inr (v, r) \<longrightarrow> length r < length s2"
proof (induction d s and d1 s1 acc1 and d2 s2 acc2 rule: scan_once_parse_array_parse_object.induct)
  case (1 d s)
  show ?case
  proof (intro allI impI)
    fix v r
    assume a: "scan_once d s = Inr (v, r)"
    then obtain c cs where s: "s = c # cs"
      by (cases s) (auto simp: scan_once.simps)
    consider (str) "c = 34" | (obj) "c \<noteq> 34" "c = 123" | (arr) "c \<noteq> 34" "c \<noteq> 123" "c = 91"
      | (other) "c \<noteq> 34" "c \<noteq> 123" "c \<noteq> 91"
      by blast
    then show "length r < length s"
    proof cases
      case str
      with a s obtain x where "scanstring cs [] = Inr (x, r)"
        by (auto simp: scan_once.simps split: sum.splits)
      from scanstring_shorter [OF this] s show ?thesis by simp
    next
      case obj
      with a s have d0: "d \<noteq> 0"
        by (auto simp: scan_once.simps split: if_splits)
      with a s obj obtain q r0 where w: "skip_ws cs = q # r0"
        by (cases "skip_ws cs") (auto simp: scan_once.simps)
      show ?thesis
      proof (cases "q = 125")
        case True
        with a s obj d0 w have "r = r0" by (simp add: scan_once.simps)
        with skip_ws_Cons_length [OF w] s show ?thesis by simp
      next
        case False
        with a s obj d0 w have "parse_object (d - 1) (q # r0) [] = Inr (v, r)"
          by (simp add: scan_once.simps)
        with 1(1) [OF s obj d0 w False] have "length r < length (q # r0)" by blast
        with skip_ws_length [of cs] w s show ?thesis by simp
      qed
    next
      case arr
      with a s have d0: "d \<noteq> 0"
        by (auto simp: scan_once.simps split: if_splits)
      with a s arr obtain q r0 where w: "skip_ws cs = q # r0"
        by (cases "skip_ws cs") (auto simp: scan_once.simps)
      show ?thesis
      proof (cases "q = 93")
        case True
        with a s arr d0 w have "r = r0" by (simp add: scan_once.simps)
        with skip_ws_Cons_length [OF w] s show ?thesis by simp
      next
        case False
        with a s arr d0 w have "parse_array (d - 1) (q # r0) [] = Inr (v, r)"
          by (simp add: scan_once.simps)
        with 1(2) [OF s arr d0 w False] have "length r < length (q # r0)" by blast
        with skip_ws_length [of cs] w s show ?thesis by simp
      qed
    next
      case other
      with a s show ?thesis
        by (auto simp: scan_once.simps split: if_splits dest: scan_number_shorter)
    qed
  qed
next
  case (2 d s acc)
  show ?case
  proof (intro allI impI)
    fix v r
    assume a: "parse_array d s acc = Inr (v, r)"
    then obtain x r1 where x: "scan_once d s = Inr (x, r1)"
      by (cases "scan_once d s") (auto simp: parse_array.simps)
    with 2(1) have l1: "length r1 < length s" by blast
    from a x obtain q r2 where w: "skip_ws r1 = q # r2"
      by (cases "skip_ws r1") (auto simp: parse_array.simps)
    have l2: "length r2 < length r1" by (rule skip_ws_Cons_length [OF w])
    show "length r < length s"
    proof (cases "q = 93")
      case True
      with a x w have "r = r2" by (simp add: parse_array.simps)
      with l1 l2 show ?thesis by simp
    next
      case False
      with a x w have g: "q = 44 \<and> length r2 < length s"
        and "parse_array d (skip_ws r2) (acc @ [x]) = Inr (v, r)"
        by (auto simp: parse_array.simps split: if_splits)
      with 2(2) [OF x [THEN sym, THEN sym] refl w False g]
      have "length r < length (skip_ws r2)" by blast
      with skip_ws_length [of r2] l1 l2 show ?thesis by simp
    qed
  qed
next
  case (3 d s acc)
  show ?case
  proof (intro allI impI)
    fix v r
    assume a: "parse_object d s acc = Inr (v, r)"
    then obtain q ks where s: "s = q # ks" and q: "\<not> q \<noteq> 34"
      by (cases s) (auto simp: parse_object.simps split: if_splits)
    from a s q obtain key r0 where k: "scanstring ks [] = Inr (key, r0)"
      by (cases "scanstring ks []") (auto simp: parse_object.simps)
    have l0: "length r0 < length ks" by (rule scanstring_shorter [OF k])
    from a s q k obtain colon r1 where w1: "skip_ws r0 = colon # r1"
      by (cases "skip_ws r0") (auto simp: parse_object.simps)
    from a s q k w1 have c: "\<not> colon \<noteq> 58"
      by (auto simp: parse_object.simps split: if_splits)
    have l1: "length r1 < length r0" by (rule skip_ws_Cons_length [OF w1])
    from a s q k w1 c obtain x r2 where x: "scan_once d (skip_ws r1) = Inr (x, r2)"
      by (cases "scan_once d (skip_ws r1)") (auto simp: parse_object.simps)
    with 3(1) [OF s q k [THEN sym, THEN sym] refl w1 c]
    have "length r2 < length (skip_ws r1)" by blast
    with skip_ws_length [of r1] have l2: "length r2 < length r1" by simp
    from a s q k w1 c x obtain p r3 where w3: "skip_ws r2 = p # r3"
      by (cases "skip_ws r2") (auto simp: parse_object.simps)
    have l3: "length r3 < length r2" by (rule skip_ws_Cons_length [OF w3])
    show "length r < length s"
    proof (cases "p = 125")
      case True
      with a s q k w1 c x w3 have "r = r3" by (simp add: parse_object.simps)
      with l0 l1 l2 l3 s show ?thesis by simp
    next
      case False
      with a s q k w1 c x w3 have g: "p = 44 \<and> length r3 < length s"
        and "parse_object d (skip_ws r3) (dict_set acc key x) = Inr (v, r)"
        by (auto simp: parse_object.simps split: if_splits)
      with 3(2) [OF s q k [THEN sym, THEN sym] refl w1 c x [THEN sym, THEN sym] refl w3 False g]
      have "length r < length (skip_ws r3)" by blast
      with skip_ws_length [of r3] l0 l1 l2 l3 s show ?thesis by simp
    qed
  qed
qed

text \<open>The scanner as the code has it, without the tests on the length of the rest.\<close>

lemma parse_array_unfold:
  "parse_array d s acc =
     (case scan_once d s of
        Inl e \<Rightarrow> Inl e
      | Inr (v, r) \<Rightarrow>
          (case skip_ws r of
             [] \<Rightarrow> Inl (raise_errmsg d)
           | q # r' \<Rightarrow>
               if q = 93 then Inr (JArray (acc @ [v]), r')
               else if q = 44 then parse_array d (skip_ws r') (acc @ [v])
               else Inl (raise_errmsg d)))"
proof (cases "scan_once d s")
  case (Inl e)
  then show ?thesis by (subst parse_array.simps) simp
next
  case (Inr p)
  obtain v r where p: "p = (v, r)" by (cases p)
  with Inr have x: "scan_once d s = Inr (v, r)" by simp
  have l1: "length r < length s" using scanner_shorter(1) x by blast
  show ?thesis
  proof (cases "skip_ws r")
    case Nil
    with x show ?thesis by (subst parse_array.simps) simp
  next
    case (Cons q r')
    have "length r' < length s"
      using skip_ws_Cons_length [OF Cons] l1 by simp
    with x Cons show ?thesis by (subst parse_array.simps) simp
  qed
qed

lemma parse_object_unfold:
  "parse_object d s acc =
     (case s of
        [] \<Rightarrow> Inl (raise_errmsg d)
      | q # ks \<Rightarrow>
          if q \<noteq> 34 then Inl (raise_errmsg d)
          else
            (case scanstring ks [] of
               Inl e \<Rightarrow> Inl (raise_errmsg d)
             | Inr (key, r) \<Rightarrow>
                 (case skip_ws r of
                    [] \<Rightarrow> Inl (raise_errmsg d)
                  | colon # r1 \<Rightarrow>
                      if colon \<noteq> 58 then Inl (raise_errmsg d)
                      else
                        (case scan_once d (skip_ws r1) of
                           Inl e \<Rightarrow> Inl e
                         | Inr (v, r2) \<Rightarrow>
                             (case skip_ws r2 of
                                [] \<Rightarrow> Inl (raise_errmsg d)
                              | c # r3 \<Rightarrow>
                                  if c = 125 then Inr (JObject (dict_set acc key v), r3)
                                  else if c = 44
                                    then parse_object d (skip_ws r3) (dict_set acc key v)
                                  else Inl (raise_errmsg d))))))"
proof (cases s)
  case Nil
  then show ?thesis by (subst parse_object.simps) simp
next
  case s: (Cons q ks)
  show ?thesis
  proof (cases "scanstring ks []")
    case (Inl e)
    with s show ?thesis by (subst parse_object.simps) simp
  next
    case (Inr p)
    obtain key r where "p = (key, r)" by (cases p)
    with Inr have k: "scanstring ks [] = Inr (key, r)" by simp
    have l0: "length r < length ks" by (rule scanstring_shorter [OF k])
    show ?thesis
    proof (cases "skip_ws r")
      case Nil
      with s k show ?thesis by (subst parse_object.simps) simp
    next
      case w1: (Cons colon r1)
      have l1: "length r1 < length r" by (rule skip_ws_Cons_length [OF w1])
      show ?thesis
      proof (cases "scan_once d (skip_ws r1)")
        case (Inl e)
        with s k w1 show ?thesis by (subst parse_object.simps) simp
      next
        case (Inr p2)
        obtain v r2 where "p2 = (v, r2)" by (cases p2)
        with Inr have x: "scan_once d (skip_ws r1) = Inr (v, r2)" by simp
        have "length r2 < length (skip_ws r1)" using scanner_shorter(1) x by blast
        with skip_ws_length [of r1] have l2: "length r2 < length r1" by simp
        show ?thesis
        proof (cases "skip_ws r2")
          case Nil
          with s k w1 x show ?thesis by (subst parse_object.simps) simp
        next
          case w3: (Cons c r3)
          have "length r3 < length s"
            using skip_ws_Cons_length [OF w3] l0 l1 l2 s by simp
          with s k w1 x w3 show ?thesis by (subst parse_object.simps) simp
        qed
      qed
    qed
  qed
qed

text \<open>No exception of the scanner is an error of the file system.\<close>

lemma raise_errmsg_cases: "raise_errmsg d = RecursionError \<or> raise_errmsg d = JSONDecodeError"
  by (simp add: raise_errmsg_def)

lemma scanner_errors:
  "\<forall>e. scan_once d s = Inl e \<longrightarrow> (\<forall>x. e \<noteq> IOError x)"
  "\<forall>e. parse_array d1 s1 acc1 = Inl e \<longrightarrow> (\<forall>x. e \<noteq> IOError x)"
  "\<forall>e. parse_object d2 s2 acc2 = Inl e \<longrightarrow> (\<forall>x. e \<noteq> IOError x)"
proof (induction d s and d1 s1 acc1 and d2 s2 acc2 rule: scan_once_parse_array_parse_object.induct)
  case (1 d s)
  show ?case
  proof (intro allI impI)
    fix e x
    assume a: "scan_once d s = Inl e"
    show "e \<noteq> IOError x"
    proof
      assume e: "e = IOError x"
      with a obtain c cs where s: "s = c # cs"
        by (cases s) (auto simp: scan_once.simps)
      consider (str) "c = 34" | (obj) "c \<noteq> 34" "c = 123"
        | (arr) "c \<noteq> 34" "c \<noteq> 123" "c = 91" | (other) "c \<noteq> 34" "c \<noteq> 123" "c \<noteq> 91"
        by blast
      then show False
      proof cases
        case str
        with a e s raise_errmsg_cases [of d] show ?thesis
          by (auto simp: scan_once.simps split: sum.splits)
      next
        case obj
        with a e s have d0: "d \<noteq> 0"
          by (auto simp: scan_once.simps split: if_splits)
        with a e s obj raise_errmsg_cases [of "d - 1"] obtain q r0
          where w: "skip_ws cs = q # r0"
          by (cases "skip_ws cs") (auto simp: scan_once.simps)
        with a e s obj d0 have q: "q \<noteq> 125"
          and p: "parse_object (d - 1) (q # r0) [] = Inl (IOError x)"
          by (auto simp: scan_once.simps split: if_splits)
        with 1(1) [OF s obj d0 w q] show ?thesis by blast
      next
        case arr
        with a e s have d0: "d \<noteq> 0"
          by (auto simp: scan_once.simps split: if_splits)
        with a e s arr obtain q r0 where w: "skip_ws cs = q # r0"
          by (cases "skip_ws cs") (auto simp: scan_once.simps)
        with a e s arr d0 have q: "q \<noteq> 93"
          and p: "parse_array (d - 1) (q # r0) [] = Inl (IOError x)"
          by (auto simp: scan_once.simps split: if_splits)
        with 1(2) [OF s arr d0 w q] show ?thesis by blast
      next
        case other
        with a e s show ?thesis
          by (auto simp: scan_once.simps split: if_splits dest: scan_number_error)
      qed
    qed
  qed
next
  case (2 d s acc)
  show ?case
  proof (intro allI impI)
    fix e x
    assume a: "parse_array d s acc = Inl e"
    show "e \<noteq> IOError x"
    proof
      assume e: "e = IOError x"
      show False
      proof (cases "scan_once d s")
        case (Inl e')
        with a e have "scan_once d s = Inl (IOError x)" by (simp add: parse_array_unfold)
        with 2(1) show ?thesis by blast
      next
        case (Inr p)
        obtain v r1 where "p = (v, r1)" by (cases p)
        with Inr have v: "scan_once d s = Inr (v, r1)" by simp
        have l1: "length r1 < length s" using scanner_shorter(1) v by blast
        from a e v raise_errmsg_cases [of d] obtain q r2 where w: "skip_ws r1 = q # r2"
          by (cases "skip_ws r1") (auto simp: parse_array_unfold)
        from a e v w raise_errmsg_cases [of d] have q93: "q \<noteq> 93" and q: "q = 44"
          and p: "parse_array d (skip_ws r2) (acc @ [v]) = Inl (IOError x)"
          by (auto simp: parse_array_unfold [of d s] split: if_splits)
        have g: "q = 44 \<and> length r2 < length s"
          using q skip_ws_Cons_length [OF w] l1 by simp
        from 2(2) [OF v [THEN sym, THEN sym] refl w q93 g] p show ?thesis by blast
      qed
    qed
  qed
next
  case (3 d s acc)
  show ?case
  proof (intro allI impI)
    fix e x
    assume a: "parse_object d s acc = Inl e"
    show "e \<noteq> IOError x"
    proof
      assume e: "e = IOError x"
      note rc = raise_errmsg_cases [of d]
      from a e have u: "parse_object d s acc = Inl (IOError x)" by simp
      note u = u [unfolded parse_object_unfold [of d s acc]]
      from u rc obtain q ks where s: "s = q # ks" and q: "\<not> q \<noteq> 34"
        by (cases s) (auto split: if_splits)
      from u rc s q obtain key r0 where k: "scanstring ks [] = Inr (key, r0)"
        by (cases "scanstring ks []") auto
      have l0: "length r0 < length ks" by (rule scanstring_shorter [OF k])
      from u rc s q k obtain colon r1 where w1: "skip_ws r0 = colon # r1"
        by (cases "skip_ws r0") auto
      from u rc s q k w1 have c: "\<not> colon \<noteq> 58"
        by (auto split: if_splits)
      have l1: "length r1 < length r0" by (rule skip_ws_Cons_length [OF w1])
      show False
      proof (cases "scan_once d (skip_ws r1)")
        case (Inl e')
        with u s q k w1 c have "scan_once d (skip_ws r1) = Inl (IOError x)"
          by simp
        with 3(1) [OF s q k [THEN sym, THEN sym] refl w1 c] show ?thesis by blast
      next
        case (Inr p2)
        obtain v r2 where "p2 = (v, r2)" by (cases p2)
        with Inr have v: "scan_once d (skip_ws r1) = Inr (v, r2)" by simp
        have "length r2 < length (skip_ws r1)" using scanner_shorter(1) v by blast
        with skip_ws_length [of r1] have l2: "length r2 < length r1" by simp
        from u rc s q k w1 c v obtain p r3 where w3: "skip_ws r2 = p # r3"
          by (cases "skip_ws r2") auto
        from u rc s q k w1 c v w3 have p125: "p \<noteq> 125" and p44: "p = 44"
          and po: "parse_object d (skip_ws r3) (dict_set acc key v) = Inl (IOError x)"
          by (auto split: if_splits)
        have g: "p = 44 \<and> length r3 < length s"
          using p44 skip_ws_Cons_length [OF w3] l0 l1 l2 s by simp
        from 3(2) [OF s q k [THEN sym, THEN sym] refl w1 c v [THEN sym, THEN sym] refl w3 p125 g]
          po
        show ?thesis by blast
      qed
    qed
  qed
qed

lemma json_loads_errors:
  "json_loads depth s = Inl e \<Longrightarrow>
     e = JSONDecodeError \<or> e = RecursionError \<or> e = ValueError"
proof -
  assume a: "json_loads depth s = Inl e"
  have "\<forall>x. e \<noteq> IOError x"
    using a scanner_errors(1) [of depth "skip_ws s"]
    by (auto simp: json_loads_def split: sum.splits if_splits)
  moreover have "e \<noteq> StopIteration"
    using a by (auto simp: json_loads_def split: sum.splits if_splits)
  ultimately show ?thesis by (cases e) auto
qed

section \<open>Loading\<close>

text \<open>
  The examples take 990 for \<open>depth\<close>: under the default recursion limit of 1000, this is
  what is left where the scanner starts when the program, run as a script, loads its
  file.
\<close>

lemma json_loads_not_json: "json_loads 990 (str ''not json'') = Inl JSONDecodeError"
  by (simp add: json_loads_def scan_once.simps str_def starts_with_def
      skip_ws_def json_ws_def scan_number_def is_digit_def)

lemma json_loads_empty_list: "json_loads 990 (str ''[]'') = Inr (JArray [])"
  by (simp add: json_loads_def scan_once.simps str_def starts_with_def skip_ws_def json_ws_def)

text \<open>More opening brackets than the interpreter allows nested calls.\<close>

lemma scan_once_nested:
  "scan_once d (replicate (Suc d) 91 @ r) = Inl RecursionError"
proof (induction d)
  case 0
  show ?case by (simp add: scan_once.simps)
next
  case (Suc d)
  have w: "skip_ws (replicate (Suc d) 91 @ r) = 91 # replicate d 91 @ r"
    by (simp add: skip_ws_def json_ws_def)
  have "scan_once (Suc d) (91 # replicate (Suc d) 91 @ r) =
          parse_array d (91 # replicate d 91 @ r) []"
    using w by (simp add: scan_once.simps)
  also have "\<dots> = Inl RecursionError"
    using Suc by (subst parse_array_unfold) simp
  finally show ?case by simp
qed

lemma json_loads_nested:
  assumes "d < n"
  shows "json_loads d (nested n) = Inl RecursionError"
proof -
  obtain k where n: "n = Suc d + k"
    using assms less_imp_Suc_add by (metis add_Suc)
  have t: "nested n = replicate (Suc d) 91 @ replicate k 91"
    by (simp add: nested_def n replicate_add)
  have "skip_ws (nested n) = nested n"
    unfolding t by (simp add: skip_ws_def json_ws_def)
  moreover have "\<not> starts_with [65279] (nested n)"
    unfolding t by (simp add: starts_with_def)
  moreover have "scan_once d (nested n) = Inl RecursionError"
    unfolding t by (rule scan_once_nested)
  ultimately show ?thesis
    by (simp add: json_loads_def)
qed

text \<open>An integer of more digits than \<open>int\<close> converts.\<close>

lemma json_loads_ones:
  assumes "4300 < n"
  shows "json_loads d (ones n) = Inl ValueError"
proof -
  obtain k where n: "n = Suc k"
    using assms by (cases n) auto
  have d49: "is_digit 49"
    by (simp add: is_digit_def)
  have t: "ones n = 49 # replicate k 49"
    by (simp add: ones_def n)
  have tw: "takeWhile is_digit (replicate k 49) = replicate k 49"
    "dropWhile is_digit (replicate k 49) = []"
    using d49 by (simp_all add: takeWhile_eq_all_conv)
  have "scan_number (49 # replicate k 49) = Inl ValueError"
    using assms n d49 tw
    by (simp add: scan_number_def scan_fraction_def scan_exponent_def)
  moreover have "scan_once d (49 # replicate k 49) = scan_number (49 # replicate k 49)"
    by (simp add: scan_once.simps starts_with_def str_def)
  moreover have "skip_ws (49 # replicate k 49) = 49 # replicate k 49"
    by (simp add: skip_ws_def json_ws_def)
  moreover have "\<not> starts_with [65279] (49 # replicate k 49)"
    by (simp add: starts_with_def)
  ultimately show ?thesis
    unfolding t by (simp add: json_loads_def)
qed

text \<open>
  C9, as amended. \<open>load_tasks\<close> never raises: whatever the file is, the result is a
  value with what was printed. An absent file gives the empty list and prints nothing; a
  text that \<open>json.load\<close> accepts gives its value; a text that it rejects with
  \<open>JSONDecodeError\<close> gives the empty list with the warning; a text on which it raises
  another exception, which is then \<open>RecursionError\<close> (the text is nested deeper than the
  interpreter allows) or \<open>ValueError\<close> (an integer of more than 4300 digits), gives the
  empty list with the error message, and so does a failure to open, read or decode the
  file.
\<close>

theorem load_tasks_never_raises:
  "(stored s = Absent \<longrightarrow> load_tasks depth s = Inr (JArray [], [])) \<and>
   (stored s = Content doc \<and> json_loads depth doc = Inr v \<longrightarrow>
      load_tasks depth s = Inr (v, [])) \<and>
   (stored s = Content doc \<and> json_loads depth doc = Inl JSONDecodeError \<longrightarrow>
      load_tasks depth s = Inr (JArray [], [WarnCorrupted])) \<and>
   (stored s = Content doc \<and> json_loads depth doc = Inl x \<and> x \<noteq> JSONDecodeError \<longrightarrow>
      (x = RecursionError \<or> x = ValueError) \<and>
      load_tasks depth s = Inr (JArray [], [ErrLoading x])) \<and>
   (stored s = Unreadable e \<longrightarrow>
      load_tasks depth s = Inr (JArray [], [ErrLoading (IOError e)])) \<and>
   (\<exists>v out. load_tasks depth s = Inr (v, out))"
proof (intro conjI impI)
  assume "stored s = Absent"
  then show "load_tasks depth s = Inr (JArray [], [])"
    by (simp add: load_tasks_def)
next
  assume "stored s = Content doc \<and> json_loads depth doc = Inr v"
  then show "load_tasks depth s = Inr (v, [])"
    by (simp add: load_tasks_def)
next
  assume "stored s = Content doc \<and> json_loads depth doc = Inl JSONDecodeError"
  then show "load_tasks depth s = Inr (JArray [], [WarnCorrupted])"
    by (simp add: load_tasks_def)
next
  assume a: "stored s = Content doc \<and> json_loads depth doc = Inl x \<and> x \<noteq> JSONDecodeError"
  with json_loads_errors [of depth doc x] show "x = RecursionError \<or> x = ValueError"
    by blast
  with a show "load_tasks depth s = Inr (JArray [], [ErrLoading x])"
    by (auto simp: load_tasks_def is_Exception_def)
next
  assume "stored s = Unreadable e"
  then show "load_tasks depth s = Inr (JArray [], [ErrLoading (IOError e)])"
    by (simp add: load_tasks_def is_Exception_def)
next
  show "\<exists>v out. load_tasks depth s = Inr (v, out)"
    by (auto simp: load_tasks_def is_Exception_def split: file_state.split sum.split exn.split)
qed

theorem load_tasks_never_raises_witness:
  "load_tasks 990 \<lparr>tasks = [], stored = Absent, on_write = WriteOk,
     save_calls = 0\<rparr> =
     Inr (JArray [], []) \<and>
   json_loads 990 (str ''[]'') = Inr (JArray []) \<and>
   load_tasks 990 \<lparr>tasks = [], stored = Content (str ''[]''), on_write = WriteOk,
     save_calls = 0\<rparr> = Inr (JArray [], []) \<and>
   json_loads 990 (str ''not json'') = Inl JSONDecodeError \<and>
   load_tasks 990 \<lparr>tasks = [], stored = Content (str ''not json''), on_write = WriteOk,
     save_calls = 0\<rparr> = Inr (JArray [], [WarnCorrupted]) \<and>
   json_loads 990 (nested 1100) = Inl RecursionError \<and>
   load_tasks 990 \<lparr>tasks = [], stored = Content (nested 1100), on_write = WriteOk,
     save_calls = 0\<rparr> = Inr (JArray [], [ErrLoading RecursionError]) \<and>
   json_loads 990 (ones 4301) = Inl ValueError \<and>
   load_tasks 990 \<lparr>tasks = [], stored = Content (ones 4301), on_write = WriteOk,
     save_calls = 0\<rparr> = Inr (JArray [], [ErrLoading ValueError]) \<and>
   load_tasks 990 \<lparr>tasks = [], stored = Unreadable PermissionError, on_write = WriteOk,
     save_calls = 0\<rparr> = Inr (JArray [], [ErrLoading (IOError PermissionError)])"
  using
    load_tasks_never_raises [of
      "\<lparr>tasks = [], stored = Absent, on_write = WriteOk,
     save_calls = 0\<rparr>" 990 "[]" JNull
      RecursionError PermissionError]
    load_tasks_never_raises [of
      "\<lparr>tasks = [], stored = Content (str ''[]''), on_write = WriteOk,
     save_calls = 0\<rparr>" 990
      "str ''[]''" "JArray []" RecursionError PermissionError]
    load_tasks_never_raises [of
      "\<lparr>tasks = [], stored = Content (str ''not json''), on_write = WriteOk,
     save_calls = 0\<rparr>" 990
      "str ''not json''" JNull RecursionError PermissionError]
    load_tasks_never_raises [of
      "\<lparr>tasks = [], stored = Content (nested 1100), on_write = WriteOk,
     save_calls = 0\<rparr>" 990
      "nested 1100" JNull RecursionError PermissionError]
    load_tasks_never_raises [of
      "\<lparr>tasks = [], stored = Content (ones 4301), on_write = WriteOk,
     save_calls = 0\<rparr>" 990
      "ones 4301" JNull ValueError PermissionError]
    load_tasks_never_raises [of
      "\<lparr>tasks = [], stored = Unreadable PermissionError, on_write = WriteOk,
     save_calls = 0\<rparr>" 990
      "[]" JNull RecursionError PermissionError]
  by (simp add: json_loads_not_json json_loads_empty_list json_loads_nested json_loads_ones)

text \<open>
  The claim C9 as stated asks for a logged warning when the file is absent, and when its
  content is malformed. With the file absent \<open>load_tasks\<close> returns the empty list and
  prints nothing; and on the malformed text of 1100 opening brackets, which the
  interpreter does not follow to its end, what is printed is the error, not the warning.
\<close>

theorem load_tasks_absent_logs_nothing:
  "load_tasks 990 \<lparr>tasks = [], stored = Absent, on_write = WriteOk,
     save_calls = 0\<rparr> =
     Inr (JArray [], []) \<and>
   load_tasks 990 \<lparr>tasks = [], stored = Content (nested 1100), on_write = WriteOk,
     save_calls = 0\<rparr> = Inr (JArray [], [ErrLoading RecursionError]) \<and>
   ErrLoading RecursionError \<noteq> WarnCorrupted"
  by (simp add: load_tasks_def json_loads_nested is_Exception_def)

section \<open>Reading back what was written\<close>

subsection \<open>Strings\<close>

lemma hexval_hexdigit: "d < 16 \<Longrightarrow> hexval (hexdigit d) = Some d"
  by (simp add: hexval_def hexdigit_def)

lemma hex_sum:
  fixes n :: nat
  assumes "n < 65536"
  shows "((n div 4096 mod 16 * 16 + n div 256 mod 16) * 16 + n div 16 mod 16) * 16 + n mod 16 = n"
proof -
  have a: "n div 4096 mod 16 = n div 4096" using assms by simp
  have e: "n div 256 div 16 = n div 4096" using div_mult2_eq [of n 256 16] by simp
  have f: "n div 16 div 16 = n div 256" using div_mult2_eq [of n 16 16] by simp
  have b: "n div 256 = (n div 4096) * 16 + n div 256 mod 16"
    using div_mult_mod_eq [of "n div 256" 16] e by simp
  have c: "n div 16 = (n div 256) * 16 + n div 16 mod 16"
    using div_mult_mod_eq [of "n div 16" 16] f by simp
  have d: "n = (n div 16) * 16 + n mod 16"
    by simp
  show ?thesis
    using a b c d by simp
qed

lemma hex4_decode:
  assumes "n < 65536"
  obtains a b c d where "hex4 n = [a, b, c, d]" and "hex4_value a b c d = Some n"
proof -
  have h1: "hexval (hexdigit (n div 4096 mod 16)) = Some (n div 4096 mod 16)"
    by (rule hexval_hexdigit) simp
  have h2: "hexval (hexdigit (n div 256 mod 16)) = Some (n div 256 mod 16)"
    by (rule hexval_hexdigit) simp
  have h3: "hexval (hexdigit (n div 16 mod 16)) = Some (n div 16 mod 16)"
    by (rule hexval_hexdigit) simp
  have h4: "hexval (hexdigit (n mod 16)) = Some (n mod 16)"
    by (rule hexval_hexdigit) simp
  have "hex4_value (hexdigit (n div 4096 mod 16)) (hexdigit (n div 256 mod 16))
           (hexdigit (n div 16 mod 16)) (hexdigit (n mod 16)) = Some n"
    unfolding hex4_value_def h1 h2 h3 h4
    by (simp only: prod.case option.case hex_sum [OF assms])
  then show ?thesis
    using that [OF hex4_def] by blast
qed

lemma join_surrogates_split:
  assumes "65536 \<le> c" and "c < 1114112"
  shows "join_surrogates (55296 + (c - 65536) div 1024 mod 1024) (56320 + (c - 65536) mod 1024) = c"
proof -
  have "(c - 65536) div 1024 < 1024" using assms by simp
  then have "(c - 65536) div 1024 mod 1024 = (c - 65536) div 1024" by simp
  then show ?thesis using assms by (simp add: join_surrogates_def)
qed

lemma escape_char_cases:
  assumes "c < 1114112"
  obtains (short) x where "escape_char c = [92, x]" and "x \<noteq> 117"
      and "\<forall>T. scan_escape (x # T) = Some (c, T)"
  | (plain) "escape_char c = [c]" and "c \<noteq> 34" and "c \<noteq> 92" and "31 < c"
  | (bmp) a b d e where "escape_char c = [92, 117, a, b, d, e]"
      and "hex4_value a b d e = Some c"
  | (astral) a b d e k1 k2 k3 k4 hi lo where
      "escape_char c = [92, 117, a, b, d, e, 92, 117, k1, k2, k3, k4]"
      and "hex4_value a b d e = Some hi" and "is_high hi"
      and "hex4_value k1 k2 k3 k4 = Some lo" and "is_low lo" and "join_surrogates hi lo = c"
proof -
  consider "c = 34 \<or> c = 92 \<or> c = 10 \<or> c = 13 \<or> c = 9 \<or> c = 12 \<or> c = 8"
    | "32 \<le> c" "c \<le> 126" "c \<noteq> 34" "c \<noteq> 92"
    | "\<not> (32 \<le> c \<and> c \<le> 126)" "c < 65536" "c \<noteq> 10" "c \<noteq> 13" "c \<noteq> 9" "c \<noteq> 12" "c \<noteq> 8"
    | "65536 \<le> c"
    by linarith
  then show ?thesis
  proof cases
    case 1
    then show ?thesis
      by (elim disjE) (rule short, simp add: escape_char_def, simp, simp add: scan_escape_def)+
  next
    case 2
    then show ?thesis
      by (intro plain) (simp_all add: escape_char_def)
  next
    case 3
    obtain a b d e where h: "hex4 c = [a, b, d, e]" "hex4_value a b d e = Some c"
      using hex4_decode [OF 3(2)] by blast
    have "escape_char c = [92, 117, a, b, d, e]"
      using 3 h(1) by (auto simp: escape_char_def)
    then show ?thesis
      using h(2) by (rule bmp)
  next
    case 4
    let ?hi = "55296 + (c - 65536) div 1024 mod 1024"
    let ?lo = "56320 + (c - 65536) mod 1024"
    have hi: "?hi < 65536" "is_high ?hi"
      by (simp_all add: is_high_def) 
    have lo: "?lo < 65536" "is_low ?lo"
      by (simp_all add: is_low_def)
    obtain a b d e where h: "hex4 ?hi = [a, b, d, e]" "hex4_value a b d e = Some ?hi"
      using hex4_decode [OF hi(1)] by blast
    obtain k1 k2 k3 k4 where k: "hex4 ?lo = [k1, k2, k3, k4]" "hex4_value k1 k2 k3 k4 = Some ?lo"
      using hex4_decode [OF lo(1)] by blast
    have "escape_char c = [92, 117, a, b, d, e, 92, 117, k1, k2, k3, k4]"
      using 4 h(1) k(1) by (simp add: escape_char_def Let_def)
    then show ?thesis
      using h(2) hi(2) k(2) lo(2) join_surrogates_split [OF 4 assms] by (rule astral)
  qed
qed

lemma scan_escape_u:
  assumes "hex4_value a b d e = Some u" and "T \<noteq> []"
    and "is_high u \<Longrightarrow> \<forall>k1 k2 k3 k4 r2. T = 92 # 117 # k1 # k2 # k3 # k4 # r2 \<longrightarrow>
           (\<exists>u2. hex4_value k1 k2 k3 k4 = Some u2 \<and> \<not> is_low u2)"
  shows "scan_escape (117 # a # b # d # e # T) = Some (u, T)"
proof (cases "is_high u")
  case False
  with assms(1,2) show ?thesis
    by (simp add: scan_escape_def split: list.split)
next
  case True
  from assms(3) [OF True] assms(1,2) show ?thesis
    by (auto simp: scan_escape_def split: list.split)
qed

lemma scan_escape_pair:
  assumes "hex4_value a b d e = Some hi" and "is_high hi"
    and "hex4_value k1 k2 k3 k4 = Some lo" and "is_low lo" and "T \<noteq> []"
  shows "scan_escape (117 # a # b # d # e # 92 # 117 # k1 # k2 # k3 # k4 # T) =
           Some (join_surrogates hi lo, T)"
  using assms by (simp add: scan_escape_def)

lemma high_not_low: "is_high u \<Longrightarrow> \<not> is_low u"
  by (simp add: is_high_def is_low_def)

lemma lookahead_not_low:
  assumes "c < 1114112" and "\<not> is_low c"
    and "escape_char c @ T = 92 # 117 # k1 # k2 # k3 # k4 # r2"
  shows "\<exists>u2. hex4_value k1 k2 k3 k4 = Some u2 \<and> \<not> is_low u2"
  using assms(1)
proof (cases c rule: escape_char_cases)
  case (short x)
  with assms(3) show ?thesis by simp
next
  case plain
  with assms(3) show ?thesis by simp
next
  case (bmp a b d e)
  with assms(2,3) show ?thesis by auto
next
  case (astral a b d e k1' k2' k3' k4' hi lo)
  with assms(3) show ?thesis by (auto dest: high_not_low)
qed

lemma scanstring_escape_char:
  assumes "c < 1114112" and "T \<noteq> []"
    and "is_high c \<Longrightarrow> \<forall>k1 k2 k3 k4 r2. T = 92 # 117 # k1 # k2 # k3 # k4 # r2 \<longrightarrow>
           (\<exists>u2. hex4_value k1 k2 k3 k4 = Some u2 \<and> \<not> is_low u2)"
  shows "scanstring (escape_char c @ T) acc = scanstring T (acc @ [c])"
  using assms(1)
proof (cases c rule: escape_char_cases)
  case (short x)
  then show ?thesis by (simp add: scanstring.simps)
next
  case plain
  then show ?thesis by (simp add: scanstring.simps)
next
  case (bmp a b d e)
  have "scan_escape (117 # a # b # d # e # T) = Some (c, T)"
    using bmp(2) assms(2,3) by (rule scan_escape_u)
  with bmp(1) show ?thesis by (simp add: scanstring.simps)
next
  case (astral a b d e k1 k2 k3 k4 hi lo)
  have "scan_escape (117 # a # b # d # e # 92 # 117 # k1 # k2 # k3 # k4 # T) =
           Some (join_surrogates hi lo, T)"
    using astral(2-5) assms(2) by (rule scan_escape_pair)
  with astral(1,6) show ?thesis by (simp add: scanstring.simps)
qed

lemma text_ok_Cons:
  "text_ok (c # cs) \<longleftrightarrow>
     c < 1114112 \<and> text_ok cs \<and> (is_high c \<longrightarrow> cs = [] \<or> \<not> is_low (hd cs))"
  by (cases cs) (auto simp: text_ok_def)

lemma scanstring_body:
  "text_ok cs \<Longrightarrow>
   scanstring (concat (map escape_char cs) @ 34 # rest) acc = Inr (acc @ cs, rest)"
proof (induction cs arbitrary: acc)
  case Nil
  show ?case by (simp add: scanstring.simps)
next
  case (Cons c cs)
  let ?T = "concat (map escape_char cs) @ 34 # rest"
  from Cons.prems have c: "c < 1114112" and ok: "text_ok cs"
    and nxt: "is_high c \<longrightarrow> cs = [] \<or> \<not> is_low (hd cs)"
    by (simp_all add: text_ok_Cons)
  have la: "\<forall>k1 k2 k3 k4 r2. ?T = 92 # 117 # k1 # k2 # k3 # k4 # r2 \<longrightarrow>
           (\<exists>u2. hex4_value k1 k2 k3 k4 = Some u2 \<and> \<not> is_low u2)" if "is_high c"
  proof (cases cs)
    case Nil
    then show ?thesis by simp
  next
    case (Cons c' cs')
    with nxt that ok have "\<not> is_low c'" and "c' < 1114112"
      by (simp_all add: text_ok_Cons)
    then show ?thesis
      using lookahead_not_low [of c' "concat (map escape_char cs') @ 34 # rest"] Cons by auto
  qed
  have "scanstring (escape_char c @ ?T) acc = scanstring ?T (acc @ [c])"
    using c _ la by (rule scanstring_escape_char) simp
  then show ?case
    using Cons.IH [OF ok, of "acc @ [c]"] by simp
qed

lemma scanstring_encode_str:
  "text_ok s \<Longrightarrow> scanstring (tl (encode_str s) @ rest) [] = Inr (s, rest)"
  using scanstring_body [of s rest "[]"] by (simp add: encode_str_def)

subsection \<open>Numbers, constants and whitespace\<close>

lemma digits_all: "\<forall>c\<in>set (digits n). is_digit c"
proof (induction n rule: digits.induct)
  case (1 n)
  show ?case
  proof (cases "n < 10")
    case True
    then show ?thesis by (subst digits.simps) (simp add: is_digit_def)
  next
    case False
    have "n mod 10 < 10" by simp
    then have "is_digit (48 + n mod 10)" unfolding is_digit_def by linarith
    with False 1 show ?thesis by (subst digits.simps) simp
  qed
qed

lemma digits_nonempty: "digits n \<noteq> []"
  by (subst digits.simps) simp

lemma digits_hd: "0 < n \<Longrightarrow> hd (digits n) \<noteq> 48"
proof (induction n rule: digits.induct)
  case (1 n)
  show ?case
  proof (cases "n < 10")
    case True
    with 1(2) show ?thesis by (subst digits.simps) simp
  next
    case False
    then have "0 < n div 10" by simp
    with False 1 show ?thesis by (subst digits.simps) (simp add: digits_nonempty)
  qed
qed

lemma digits_value_digits: "digits_value (digits n) = n"
proof (induction n rule: digits.induct)
  case (1 n)
  show ?case
  proof (cases "n < 10")
    case True
    then show ?thesis by (subst digits.simps) (simp add: digits_value_def is_digit_def)
  next
    case False
    have d: "is_digit (48 + n mod 10)" unfolding is_digit_def by simp
    have "digits_value (digits (n div 10) @ [48 + n mod 10]) =
          10 * digits_value (digits (n div 10)) + n mod 10"
      using d by (simp add: digits_value_def)
    with False 1 show ?thesis by (subst digits.simps) simp
  qed
qed

text \<open>The ints that the conversion between \<open>int\<close> and \<open>str\<close> accepts.\<close>

lemma length_digits: "0 < k \<Longrightarrow> length (digits n) \<le> k \<longleftrightarrow> n < 10 ^ k"
proof (induction n arbitrary: k rule: digits.induct)
  case (1 n)
  show ?case
  proof (cases "n < 10")
    case True
    have "(10::nat) ^ 1 \<le> 10 ^ k"
      using 1(2) by (intro power_increasing) simp_all
    with True have "n < 10 ^ k" by simp
    with True 1(2) show ?thesis by (subst digits.simps) simp
  next
    case False
    obtain j where k: "k = Suc j" using 1(2) by (cases k) auto
    show ?thesis
    proof (cases "j = 0")
      case True
      with False k digits_nonempty [of "n div 10"] show ?thesis
        by (subst digits.simps) (cases "digits (n div 10)", simp_all)
    next
      case j: False
      have "length (digits (n div 10)) \<le> j \<longleftrightarrow> n div 10 < 10 ^ j"
        using 1(1) [OF False, of j] j by simp
      also have "\<dots> \<longleftrightarrow> n < 10 ^ k"
        unfolding k by (simp add: div_less_iff_less_mult mult.commute)
      finally show ?thesis
        using False k by (subst digits.simps) simp
    qed
  qed
qed

lemma abs_less_power: "nat \<bar>i\<bar> < 10 ^ k \<longleftrightarrow> \<bar>i\<bar> < 10 ^ k"
proof -
  have "nat \<bar>i\<bar> < 10 ^ k \<longleftrightarrow> \<bar>i\<bar> < int (10 ^ k)"
    by (rule nat_less_iff) simp
  then show ?thesis by simp
qed

lemma repr_ok_iff: "repr_ok i \<longleftrightarrow> \<bar>i\<bar> < 10 ^ 4300"
  unfolding repr_ok_def abs_less_power [symmetric]
  by (rule length_digits) (rule zero_less_numeral)

lemma scan_fraction_comma: "scan_fraction (44 # t) = None"
  by (simp add: scan_fraction_def split: list.split)

lemma scan_exponent_comma: "scan_exponent (44 # t) = None"
  by (simp add: scan_exponent_def)

lemma not_digit_44: "\<not> is_digit 44"
  by (simp add: is_digit_def)

lemma digit_run:
  assumes "digits n = d # ds"
  shows "(if d = 48 then ([d], ds @ 44 # t)
          else (d # takeWhile is_digit (ds @ 44 # t), dropWhile is_digit (ds @ 44 # t))) =
         (d # ds, 44 # t)"
proof -
  have all: "\<forall>c\<in>set ds. is_digit c"
    using digits_all [of n] assms by simp
  have tw: "takeWhile is_digit (ds @ 44 # t) = ds" "dropWhile is_digit (ds @ 44 # t) = 44 # t"
    using all not_digit_44 by (simp_all add: takeWhile_append2 dropWhile_append2)
  have "ds = []" if "d = 48"
  proof (cases "n < 10")
    case True
    then show ?thesis using assms by (subst (asm) digits.simps) simp
  next
    case False
    then have "hd (digits n) \<noteq> 48" by (intro digits_hd) simp
    with assms that show ?thesis by simp
  qed
  with tw show ?thesis by simp
qed

lemma scan_number_digits:
  assumes "length (digits n) \<le> 4300"
  shows "scan_number (digits n @ 44 # t) = Inr (JInt (int n), 44 # t)"
proof -
  obtain d ds where e: "digits n = d # ds"
    using digits_nonempty [of n] by (cases "digits n") auto
  have d: "is_digit d" using digits_all [of n] e by simp
  then have "d \<noteq> 45" by (auto simp: is_digit_def)
  then show ?thesis
    using d digit_run [OF e, of t] digits_value_digits [of n] e assms
    by (simp add: scan_number_def scan_fraction_comma scan_exponent_comma)
qed

lemma scan_number_neg_digits:
  assumes "length (digits n) \<le> 4300"
  shows "scan_number (45 # digits n @ 44 # t) = Inr (JInt (- int n), 44 # t)"
proof -
  obtain d ds where e: "digits n = d # ds"
    using digits_nonempty [of n] by (cases "digits n") auto
  have d: "is_digit d" using digits_all [of n] e by simp
  show ?thesis
    using d digit_run [OF e, of t] digits_value_digits [of n] e assms
    by (simp add: scan_number_def scan_fraction_comma scan_exponent_comma)
qed

lemma scan_once_digit:
  "is_digit c \<Longrightarrow> scan_once d (c # r) = scan_number (c # r)"
  by (auto simp: scan_once.simps is_digit_def starts_with_def str_def)

lemma scan_once_minus_digit:
  "is_digit c \<Longrightarrow> scan_once d (45 # c # r) = scan_number (45 # c # r)"
  by (auto simp: scan_once.simps is_digit_def starts_with_def str_def)

lemma scan_once_int_repr:
  assumes "repr_ok i"
  shows "scan_once d (int_repr i @ 44 # t) = Inr (JInt i, 44 # t)"
proof -
  let ?n = "if i < 0 then nat (- i) else nat i"
  have n: "nat \<bar>i\<bar> = ?n" by simp
  have len: "length (digits ?n) \<le> 4300"
    using assms unfolding repr_ok_def n .
  obtain c cs where e: "digits ?n = c # cs"
    using digits_nonempty [of ?n] by (cases "digits ?n") auto
  have c: "is_digit c" using digits_all [of ?n] e by simp
  show ?thesis
  proof (cases "i < 0")
    case True
    have "scan_once d (45 # c # cs @ 44 # t) = Inr (JInt (- int (nat (- i))), 44 # t)"
      using scan_number_neg_digits [of "nat (- i)" t] e True len
      by (simp add: scan_once_minus_digit [OF c])
    with True e show ?thesis by (simp add: int_repr_def)
  next
    case False
    have "scan_once d (c # cs @ 44 # t) = Inr (JInt (int (nat i)), 44 # t)"
      using scan_number_digits [of "nat i" t] e False len
      by (simp add: scan_once_digit [OF c])
    with False e show ?thesis by (simp add: int_repr_def)
  qed
qed

lemma int_repr_head: "int_repr i \<noteq> [] \<and> \<not> json_ws (hd (int_repr i))"
proof -
  have "\<not> json_ws (hd (digits n))" for n
    using digits_all [of n] digits_nonempty [of n]
    by (cases "digits n") (auto simp: is_digit_def json_ws_def)
  then show ?thesis
    by (simp add: int_repr_def digits_nonempty json_ws_def)
qed

lemma scan_once_bool:
  "scan_once d ((if b then str ''true'' else str ''false'') @ t) = Inr (JBool b, t)"
  by (simp add: scan_once.simps starts_with_def str_def)

lemma scan_once_encode_str:
  "text_ok s \<Longrightarrow> scan_once d (encode_str s @ t) = Inr (JString s, t)"
  using scanstring_body [of s t "[]"] by (simp add: scan_once.simps encode_str_def)

lemma skip_ws_indent: "skip_ws (newline_indent k @ t) = skip_ws t"
  by (simp add: skip_ws_def newline_indent_def json_ws_def dropWhile_append)

lemma skip_ws_stop: "\<not> json_ws c \<Longrightarrow> skip_ws (c # t) = c # t"
  by (simp add: skip_ws_def)

lemma skip_ws_space: "skip_ws (32 # t) = skip_ws t"
  by (simp add: skip_ws_def json_ws_def)

subsection \<open>One task\<close>

lemma parse_object_member_more:
  assumes "text_ok key" and "vtxt \<noteq> []" and "\<not> json_ws (hd vtxt)"
    and "skip_ws nxt = nxt"
    and "scan_once d (vtxt @ 44 # newline_indent 2 @ nxt) =
           Inr (v, 44 # newline_indent 2 @ nxt)"
  shows "parse_object d
           (encode_str key @ [58, 32] @ vtxt @ 44 # newline_indent 2 @ nxt) acc =
         parse_object d nxt (dict_set acc key v)"
proof -
  let ?X = "44 # newline_indent 2 @ nxt"
  have k: "scanstring (concat (map escape_char key) @ 34 # ([58, 32] @ vtxt @ ?X)) [] =
             Inr (key, [58, 32] @ vtxt @ ?X)"
    using scanstring_body [OF assms(1), of "[58, 32] @ vtxt @ ?X" "[]"] by simp
  have w1: "skip_ws ([58, 32] @ vtxt @ ?X) = 58 # 32 # vtxt @ ?X"
    by (simp add: skip_ws_def json_ws_def)
  have w2: "skip_ws (32 # vtxt @ ?X) = vtxt @ ?X"
    using assms(2,3) by (cases vtxt) (simp_all add: skip_ws_def json_ws_def)
  have w3: "skip_ws ?X = ?X"
    by (simp add: skip_ws_def json_ws_def)
  have w4: "skip_ws (newline_indent 2 @ nxt) = nxt"
    using assms(4) by (simp add: skip_ws_indent)
  show ?thesis
    using k assms(5) w1 w2 w3 w4
    by (subst parse_object_unfold) (simp add: encode_str_def)
qed

lemma parse_object_member_last:
  assumes "text_ok key" and "vtxt \<noteq> []" and "\<not> json_ws (hd vtxt)"
    and "scan_once d (vtxt @ newline_indent 1 @ 125 # rest) =
           Inr (v, newline_indent 1 @ 125 # rest)"
  shows "parse_object d
           (encode_str key @ [58, 32] @ vtxt @ newline_indent 1 @ 125 # rest) acc =
         Inr (JObject (dict_set acc key v), rest)"
proof -
  let ?X = "newline_indent 1 @ 125 # rest"
  have k: "scanstring (concat (map escape_char key) @ 34 # ([58, 32] @ vtxt @ ?X)) [] =
             Inr (key, [58, 32] @ vtxt @ ?X)"
    using scanstring_body [OF assms(1), of "[58, 32] @ vtxt @ ?X" "[]"] by simp
  have w1: "skip_ws ([58, 32] @ vtxt @ ?X) = 58 # 32 # vtxt @ ?X"
    by (simp add: skip_ws_def json_ws_def)
  have w2: "skip_ws (32 # vtxt @ ?X) = vtxt @ ?X"
    using assms(2,3) by (cases vtxt) (simp_all add: skip_ws_def json_ws_def)
  have "skip_ws (125 # rest) = 125 # rest"
    by (simp add: skip_ws_def json_ws_def)
  then have w3: "skip_ws ?X = 125 # rest"
    by (simp add: skip_ws_indent)
  show ?thesis
    using k assms(4) w1 w2 w3
    by (subst parse_object_unfold) (simp add: encode_str_def)
qed

lemma text_ok_ascii:
  "text_ok (str ''id'')" "text_ok (str ''description'')" "text_ok (str ''completed'')"
  "text_ok (str ''created_at'')"
  by (simp_all add: text_ok_def str_def is_high_def)

lemma encode_str_head: "encode_str s \<noteq> [] \<and> \<not> json_ws (hd (encode_str s))"
  by (simp add: encode_str_def json_ws_def)

lemma bool_head:
  "(if b then str ''true'' else str ''false'') \<noteq> [] \<and>
   \<not> json_ws (hd (if b then str ''true'' else str ''false''))"
  by (simp add: str_def json_ws_def)

lemma skip_ws_encode_str: "skip_ws (encode_str s @ t) = encode_str s @ t"
  by (simp add: encode_str_def skip_ws_def json_ws_def)

lemma scan_once_object_start:
  "0 < d \<Longrightarrow> skip_ws r = q # r' \<Longrightarrow> q \<noteq> 125 \<Longrightarrow>
   scan_once d (123 # r) = parse_object (d - 1) (q # r') []"
  by (simp add: scan_once.simps)

lemma scan_once_array_start:
  "0 < d \<Longrightarrow> skip_ws r = q # r' \<Longrightarrow> q \<noteq> 93 \<Longrightarrow>
   scan_once d (91 # r) = parse_array (d - 1) (q # r') []"
  by (simp add: scan_once.simps)

lemma scan_once_dump_task:
  assumes "text_ok (description t)" and "text_ok (created_at t)" and "repr_ok (id_num t)"
    and "0 < d"
  shows "scan_once d (dump_task t @ rest) = Inr (py_task t, rest)"
proof -
  let ?m4 = "encode_str (str ''created_at'') @ [58, 32] @ encode_str (created_at t) @
               newline_indent 1 @ 125 # rest"
  let ?m3 = "encode_str (str ''completed'') @ [58, 32] @
               (if completed t then str ''true'' else str ''false'') @
               44 # newline_indent 2 @ ?m4"
  let ?m2 = "encode_str (str ''description'') @ [58, 32] @ encode_str (description t) @
               44 # newline_indent 2 @ ?m3"
  let ?m1 = "encode_str (str ''id'') @ [58, 32] @ int_repr (id_num t) @
               44 # newline_indent 2 @ ?m2"
  have shape: "dump_task t @ rest = 123 # newline_indent 2 @ ?m1"
    by (simp add: dump_task_def str_def)
  have s4: "parse_object (d - 1) ?m4 acc =
              Inr (JObject (dict_set acc (str ''created_at'') (JString (created_at t))), rest)"
    for acc
    using encode_str_head [of "created_at t"]
    by (intro parse_object_member_last text_ok_ascii scan_once_encode_str assms) simp_all
  have s3: "parse_object (d - 1) ?m3 acc =
              parse_object (d - 1) ?m4
                (dict_set acc (str ''completed'') (JBool (completed t)))" for acc
    using bool_head [of "completed t"]
    by (intro parse_object_member_more text_ok_ascii scan_once_bool skip_ws_encode_str)
      simp_all
  have s2: "parse_object (d - 1) ?m2 acc =
              parse_object (d - 1) ?m3
                (dict_set acc (str ''description'') (JString (description t)))" for acc
    using encode_str_head [of "description t"]
    by (intro parse_object_member_more text_ok_ascii scan_once_encode_str assms
        skip_ws_encode_str) simp_all
  have s1: "parse_object (d - 1) ?m1 acc =
              parse_object (d - 1) ?m2
                (dict_set acc (str ''id'') (JInt (id_num t)))" for acc
    using int_repr_head [of "id_num t"]
    by (intro parse_object_member_more text_ok_ascii scan_once_int_repr skip_ws_encode_str
        assms) simp_all
  have keys: "dict_set (dict_set (dict_set (dict_set [] (str ''id'') a) (str ''description'') b)
                (str ''completed'') c) (str ''created_at'') e =
              [(str ''id'', a), (str ''description'', b), (str ''completed'', c),
               (str ''created_at'', e)]" for a b c e
    by (simp add: str_def)
  have w: "skip_ws (newline_indent 2 @ ?m1) = ?m1"
    by (simp only: skip_ws_indent skip_ws_encode_str)
  have hd1: "?m1 = 34 # tl ?m1"
    by (simp add: encode_str_def)
  have "skip_ws (newline_indent 2 @ ?m1) = 34 # tl ?m1"
    by (simp only: w hd1 [symmetric])
  then have "scan_once d (123 # newline_indent 2 @ ?m1) =
          parse_object (d - 1) (34 # tl ?m1) []"
    by (rule scan_once_object_start [OF assms(4)]) simp
  then have "scan_once d (123 # newline_indent 2 @ ?m1) = parse_object (d - 1) ?m1 []"
    by (simp only: hd1 [symmetric])
  then show ?thesis
    unfolding shape s1 s2 s3 s4 keys by (simp add: py_task_def)
qed

subsection \<open>The list of tasks\<close>

lemma parse_array_last:
  "scan_once d s = Inr (v, r) \<Longrightarrow> skip_ws r = 93 # r' \<Longrightarrow>
   parse_array d s acc = Inr (JArray (acc @ [v]), r')"
  by (subst parse_array_unfold) simp

lemma parse_array_more:
  "scan_once d s = Inr (v, r) \<Longrightarrow> skip_ws r = 44 # r' \<Longrightarrow>
   parse_array d s acc = parse_array d (skip_ws r') (acc @ [v])"
  by (subst parse_array_unfold) simp

lemma dump_task_head: "dump_task t @ X = 123 # tl (dump_task t @ X)"
  by (simp add: dump_task_def str_def)

lemma dump_items_head: "ts \<noteq> [] \<Longrightarrow> dump_items ts @ X = 123 # tl (dump_items ts @ X)"
proof (induction ts rule: dump_items.induct)
  case 1
  then show ?case by simp
next
  case (2 t)
  show ?case using dump_task_head [of t X] by simp
next
  case (3 t v va)
  show ?case
    using dump_task_head [of t "str '','' @ newline_indent 1 @ dump_items (v # va) @ X"]
    by simp
qed

lemma skip_ws_dump_items: "ts \<noteq> [] \<Longrightarrow> skip_ws (dump_items ts @ X) = dump_items ts @ X"
  using dump_items_head [of ts X] skip_ws_stop [of 123 "tl (dump_items ts @ X)"]
  by (simp add: json_ws_def)

lemma parse_array_items:
  assumes "ts \<noteq> []"
    and "\<forall>t\<in>set ts. text_ok (description t) \<and> text_ok (created_at t) \<and> repr_ok (id_num t)"
    and "0 < d"
  shows "parse_array d (dump_items ts @ newline_indent 0 @ 93 # rest) acc =
           Inr (JArray (acc @ map py_task ts), rest)"
  using assms(1,2)
proof (induction ts arbitrary: acc rule: dump_items.induct)
  case 1
  then show ?case by simp
next
  case (2 t)
  have ok: "text_ok (description t)" "text_ok (created_at t)" "repr_ok (id_num t)"
    using 2(2) by simp_all
  have "skip_ws (93 # rest) = 93 # rest"
    by (simp add: skip_ws_def json_ws_def)
  then have w: "skip_ws (newline_indent 0 @ 93 # rest) = 93 # rest"
    by (simp add: skip_ws_indent)
  have "parse_array d (dump_task t @ newline_indent 0 @ 93 # rest) acc =
          Inr (JArray (acc @ [py_task t]), rest)"
    by (rule parse_array_last [OF scan_once_dump_task [OF ok assms(3)] w])
  then show ?case
    by simp
next
  case (3 t v va)
  let ?X = "dump_items (v # va) @ newline_indent 0 @ 93 # rest"
  have ok: "text_ok (description t)" "text_ok (created_at t)" "repr_ok (id_num t)"
    using 3(3) by simp_all
  have rest_ok: "\<forall>t\<in>set (v # va).
      text_ok (description t) \<and> text_ok (created_at t) \<and> repr_ok (id_num t)"
    using 3(3) by simp
  have w: "skip_ws (44 # newline_indent 1 @ ?X) = 44 # newline_indent 1 @ ?X"
    by (simp add: skip_ws_def json_ws_def)
  have w2: "skip_ws (newline_indent 1 @ ?X) = ?X"
    using skip_ws_dump_items [of "v # va" "newline_indent 0 @ 93 # rest"]
    by (simp only: skip_ws_indent) simp
  have "parse_array d (dump_task t @ 44 # newline_indent 1 @ ?X) acc =
          parse_array d (skip_ws (newline_indent 1 @ ?X)) (acc @ [py_task t])"
    by (rule parse_array_more [OF scan_once_dump_task [OF ok assms(3)] w])
  also have "\<dots> = parse_array d ?X (acc @ [py_task t])"
    by (simp only: w2)
  also have "\<dots> = Inr (JArray ((acc @ [py_task t]) @ map py_task (v # va)), rest)"
    by (rule 3(1) [OF _ rest_ok]) simp
  finally show ?case
    by (simp add: str_def)
qed

lemma json_loads_json_dump:
  assumes "\<forall>t\<in>set ts. text_ok (description t) \<and> text_ok (created_at t) \<and> repr_ok (id_num t)"
    and "2 \<le> depth"
  shows "json_loads depth (json_dump ts) = Inr (py_tasks ts)"
proof (cases "ts = []")
  case True
  then show ?thesis
    using assms(2)
    by (simp add: json_loads_def json_dump_def str_def starts_with_def skip_ws_def json_ws_def
        scan_once.simps py_tasks_def)
next
  case False
  let ?D = "dump_items ts @ newline_indent 0 @ 93 # []"
  let ?text = "91 # newline_indent 1 @ ?D"
  have dump: "json_dump ts = ?text"
    using False by (simp add: json_dump_def str_def)
  have d0: "0 < depth" and d1: "0 < depth - 1"
    using assms(2) by simp_all
  have nobom: "\<not> starts_with [65279] ?text"
    by (simp add: starts_with_def)
  have w0: "skip_ws ?text = ?text"
    by (simp add: skip_ws_def json_ws_def)
  have w1: "skip_ws (newline_indent 1 @ ?D) = 123 # tl ?D"
    using skip_ws_dump_items [OF False, of "newline_indent 0 @ 93 # []"]
      dump_items_head [OF False, of "newline_indent 0 @ 93 # []"]
    by (simp only: skip_ws_indent)
  have "scan_once depth ?text = parse_array (depth - 1) (123 # tl ?D) []"
    by (rule scan_once_array_start [OF d0 w1]) simp
  also have "123 # tl ?D = ?D"
    using dump_items_head [OF False, of "newline_indent 0 @ 93 # []"] by simp
  also have "parse_array (depth - 1) ?D [] = Inr (JArray ([] @ map py_task ts), [])"
    by (rule parse_array_items [OF False assms(1) d1])
  finally have "scan_once depth ?text = Inr (py_tasks ts, [])"
    by (simp add: py_tasks_def)
  then show ?thesis
    unfolding dump json_loads_def using nobom w0 by (simp add: skip_ws_def)
qed

lemma load_after_save:
  assumes "on_write s = WriteOk"
    and "\<forall>t\<in>set (tasks s).
           text_ok (description t) \<and> text_ok (created_at t) \<and> repr_ok (id_num t)"
    and "2 \<le> depth"
  shows "load_tasks depth (snd (snd (save_tasks s))) = Inr (py_tasks (tasks s), [])"
  using assms(1) json_loads_json_dump [OF assms(2,3)]
  by (simp add: load_tasks_def save_tasks_def)

lemma py_task_inject: "py_task a = py_task b \<Longrightarrow> a = b"
  by (cases a, cases b) (simp add: py_task_def)

lemma py_tasks_inject: "py_tasks a = py_tasks b \<Longrightarrow> a = b"
proof (induction a arbitrary: b)
  case Nil
  then show ?case by (simp add: py_tasks_def)
next
  case (Cons x xs)
  then show ?case by (cases b) (auto simp: py_tasks_def dest: py_task_inject)
qed

text \<open>
  C4, as amended. When the write succeeds and no text of a task has a high surrogate
  directly followed by a low surrogate, \<open>load_tasks\<close> after \<open>save_tasks\<close> returns, without
  a message, the very list that was saved: the same tasks in the same order, each with
  its id, description, flag and timestamp. This is within the limits of the interpreter:
  every id has at most 4300 digits, that is, is below \<open>10 ^ 4300\<close> in absolute value
  (\<open>repr_ok_iff\<close>), and the two nested calls that the list and a task in it take are
  allowed.
\<close>

theorem save_then_load:
  assumes "on_write s = WriteOk"
    and "\<forall>t\<in>set (tasks s).
           text_ok (description t) \<and> text_ok (created_at t) \<and> repr_ok (id_num t)"
    and "2 \<le> depth"
  shows "load_tasks depth (snd (snd (save_tasks s))) = Inr (py_tasks (tasks s), []) \<and>
         (\<forall>ts. py_tasks ts = py_tasks (tasks s) \<longrightarrow> ts = tasks s)"
  using load_after_save [OF assms] py_tasks_inject by blast

lemma text_ok_examples:
  "text_ok (str ''Buy milk'')" "text_ok (str ''Walk dog'')"
  "text_ok (str ''2024-01-01 08:00:00'')" "text_ok (str ''2024-01-01 09:00:00'')"
  "text_ok [128512]"
  by (simp_all add: text_ok_def str_def is_high_def)

lemma repr_ok_examples: "repr_ok 1" "repr_ok 2"
  by (simp_all add: repr_ok_def digits.simps)

theorem save_then_load_witness:
  "text_ok (str ''Buy milk'') \<and> text_ok (str ''2024-01-01 08:00:00'') \<and>
   text_ok (str ''Walk dog'') \<and> text_ok (str ''2024-01-01 09:00:00'') \<and>
   repr_ok 1 \<and> repr_ok 2 \<and>
   load_tasks 990 (snd (snd (save_tasks
     \<lparr>tasks = [\<lparr>id_num = 1, description = str ''Buy milk'', completed = False,
                 created_at = str ''2024-01-01 08:00:00''\<rparr>,
                \<lparr>id_num = 2, description = str ''Walk dog'', completed = True,
                 created_at = str ''2024-01-01 09:00:00''\<rparr>],
      stored = Absent, on_write = WriteOk, save_calls = 0\<rparr>))) =
   Inr (py_tasks [\<lparr>id_num = 1, description = str ''Buy milk'', completed = False,
                 created_at = str ''2024-01-01 08:00:00''\<rparr>,
                  \<lparr>id_num = 2, description = str ''Walk dog'', completed = True,
                 created_at = str ''2024-01-01 09:00:00''\<rparr>], [])"
  using save_then_load [of
     "\<lparr>tasks = [\<lparr>id_num = 1, description = str ''Buy milk'', completed = False,
                 created_at = str ''2024-01-01 08:00:00''\<rparr>,
                \<lparr>id_num = 2, description = str ''Walk dog'', completed = True,
                 created_at = str ''2024-01-01 09:00:00''\<rparr>],
      stored = Absent, on_write = WriteOk, save_calls = 0\<rparr>" 990]
  by (simp add: text_ok_examples repr_ok_examples)

text \<open>
  The claim C4 as stated fails for a description made of a high surrogate followed by a
  low surrogate: the two escapes written for them are read back as the one character
  U+1F600.
\<close>

lemma dump_split_pair:
  "json_dump [\<lparr>id_num = 1, description = [55357, 56832], completed = False,
               created_at = str ''2024-01-01 08:00:00''\<rparr>] =
   json_dump [\<lparr>id_num = 1, description = [128512], completed = False,
               created_at = str ''2024-01-01 08:00:00''\<rparr>]"
  by (simp add: json_dump_def dump_task_def encode_str_def escape_char_def hex4_def
      hexdigit_def Let_def)

theorem save_then_load_joins_surrogates:
  "load_tasks 990 (snd (snd (save_tasks
     \<lparr>tasks = [\<lparr>id_num = 1, description = [55357, 56832], completed = False,
                 created_at = str ''2024-01-01 08:00:00''\<rparr>],
      stored = Absent, on_write = WriteOk, save_calls = 0\<rparr>))) =
   Inr (py_tasks [\<lparr>id_num = 1, description = [128512], completed = False,
                   created_at = str ''2024-01-01 08:00:00''\<rparr>], []) \<and>
   py_tasks [\<lparr>id_num = 1, description = [128512], completed = False,
              created_at = str ''2024-01-01 08:00:00''\<rparr>] \<noteq>
   py_tasks [\<lparr>id_num = 1, description = [55357, 56832], completed = False,
              created_at = str ''2024-01-01 08:00:00''\<rparr>]"
proof -
  have "json_loads 990 (json_dump [\<lparr>id_num = 1, description = [128512], completed = False,
               created_at = str ''2024-01-01 08:00:00''\<rparr>]) =
        Inr (py_tasks [\<lparr>id_num = 1, description = [128512], completed = False,
               created_at = str ''2024-01-01 08:00:00''\<rparr>])"
    by (rule json_loads_json_dump) (simp_all add: text_ok_examples repr_ok_examples)
  then show ?thesis
    by (simp add: load_tasks_def save_tasks_def dump_split_pair py_tasks_def py_task_def)
qed


end
